theory Spec2Isabelle
  imports Complex_Main "HOL-Library.Monad_Syntax"
begin

section \<open>Values and records of the scene-graph node\<close>

text \<open>
  The node model of \<^verbatim>\<open>src/Element.ts\<close>. JavaScript numbers are modelled as reals and
  \<^verbatim>\<open>null\<close> and \<^verbatim>\<open>undefined\<close> are not told apart (the source only tests
  \<^verbatim>\<open>!= null\<close> and truthiness of arrays and objects): both are \<open>None\<close> in an optional
  field and \<open>JNull\<close> in a dynamic value. A 2-vector is the list of its components and the
  6-element affine matrix is the tuple of its six components, so that component
  \<^verbatim>\<open>m[4]\<close> is the fifth and \<^verbatim>\<open>m[5]\<close> the sixth.
\<close>

type_synonym VectorArray = "real list"

type_synonym MatrixArray = "real \<times> real \<times> real \<times> real \<times> real \<times> real"

datatype jsval =
    JNull
  | JBool bool
  | JNum real
  | JStr string
  | JArr "jsval list"
  | JObj "(string \<times> jsval) list"

text \<open>\<^verbatim>\<open>TextConfig\<close>: an object of optional keys, read and merged key by key.\<close>

type_synonym TextConfig = "string \<rightharpoonup> jsval"

text \<open>Object identities: nodes, host contexts (\<^verbatim>\<open>ZRenderType\<close>) and animators.\<close>

type_synonym ref = nat
type_synonym ZRenderType = nat
type_synonym AnimatorRef = nat

text \<open>\<^verbatim>\<open>ElementState = Pick<ElementProps, ElementStatePropNames>\<close>: every key optional.\<close>

record ElementState =
  s_position :: "VectorArray option"
  s_rotation :: "real option"
  s_scale :: "VectorArray option"
  s_origin :: "VectorArray option"
  s_textConfig :: "TextConfig option"
  s_ignore :: "bool option"

text \<open>\<^verbatim>\<open>draggable: boolean | string\<close>.\<close>

datatype Draggable = DragBool bool | DragStr string

text \<open>
  The fields of class \<^verbatim>\<open>Element\<close> that the modelled methods read or write. The
  fields \<^verbatim>\<open>__zr\<close>, \<^verbatim>\<open>__dirty\<close>, \<^verbatim>\<open>_clipPath\<close>, \<^verbatim>\<open>_textContent\<close>,
  \<^verbatim>\<open>__clipTarget\<close> and \<^verbatim>\<open>_normalState\<close> lose their underscores. Relations to other
  nodes are references into the store.
\<close>

record Element =
  ignore :: "bool option"
  draggable :: Draggable
  position :: "VectorArray option"
  rotation :: "real option"
  scale :: "VectorArray option"
  origin :: "VectorArray option"
  transform :: "MatrixArray option"
  animators :: "AnimatorRef list"
  zr :: "ZRenderType option"
  dirty :: bool
  clipPath :: "ref option"
  textContent :: "ref option"
  clipTarget :: "ref option"
  textConfig :: "TextConfig option"
  currentStates :: "string list"
  states :: "string \<rightharpoonup> ElementState"
  normalState :: "ElementState option"

text \<open>
  The store: every reference denotes a node. Beside the nodes it holds what the calls to
  the host leave behind: the animators registered with each host's scheduler
  (\<^verbatim>\<open>zr.animation\<close>), the calls of \<^verbatim>\<open>zr.refresh()\<close> and the messages passed to
  \<^verbatim>\<open>logError\<close>.
\<close>

record world =
  objs :: "ref \<Rightarrow> Element"
  scheduler :: "ZRenderType \<Rightarrow> AnimatorRef set"
  refreshed :: "ZRenderType list"
  errlog :: "string list"

subsection \<open>Values of the animation algorithm\<close>

text \<open>
  \<^verbatim>\<open>animateTo\<close> and \<^verbatim>\<open>animateToShallow\<close> receive the node and its sub-objects as
  \<^verbatim>\<open>Dictionary<any>\<close> and read and write them by computed key. For the animation
  algorithm the node is therefore its dictionary of enumerable properties: a list of
  key/value entries with distinct keys, in the order \<^verbatim>\<open>keys\<close> lists them. A sub-object
  is the value stored under its key, so an object is in one place only; the source's
  in-place writes into a sub-object become a new value under the same key.
\<close>

type_synonym Dictionary = "(string \<times> jsval) list"

text \<open>
  The trailing arguments of \<^verbatim>\<open>animateTo\<close>: a number, an easing name, the completion
  callback, or nothing. \<^verbatim>\<open>isString\<close> and \<^verbatim>\<open>isFunction\<close> (core/util) test the
  argument's type.
\<close>

datatype arg = ArgUndefined | ArgNum real | ArgStr string | ArgFn

text \<open>
  The two closures registered with an animator's \<^verbatim>\<open>done\<close>: the one of
  \<^verbatim>\<open>addAnimator\<close>, which splices the animator out of the node's array, and the
  countdown \<^verbatim>\<open>done\<close> of \<^verbatim>\<open>animateTo\<close>.
\<close>

datatype callback = SpliceFromAnimators | CountDown

text \<open>
  An animator as \<^verbatim>\<open>animateToShallow\<close>, \<^verbatim>\<open>addAnimator\<close> and \<^verbatim>\<open>animateTo\<close> set it up:
  its identity, the object it mutates (the path of keys from the node to it), the one
  keyframe given to \<^verbatim>\<open>whenWithKeys\<close>, the delay, the key passed to \<^verbatim>\<open>addAnimator\<close> for
  the \<^verbatim>\<open>during\<close> closure, the \<^verbatim>\<open>done\<close> closures in the order of their registration, and
  whether and how \<^verbatim>\<open>start\<close> was called.
\<close>

record Animator =
  a_id :: nat
  a_target :: "string list"
  a_loop :: bool
  a_time :: arg
  a_props :: Dictionary
  a_keys :: "string list"
  a_delay :: arg
  a_duringKey :: "string option"
  a_doneList :: "callback list"
  a_started :: bool
  a_easing :: arg

text \<open>
  The node for the animation algorithm: its dictionary, its array of animators, its host
  context, the animators registered with the host's scheduler in the order of their
  registration, and the next unused animator identity.
\<close>

record Animatable =
  an_props :: Dictionary
  an_animators :: "Animator list"
  an_zr :: "ZRenderType option"
  an_scheduled :: "nat list"
  an_fresh :: nat

text \<open>
  The result of a call that can throw: it returns, or it throws with the state as the
  throw leaves it, or the descriptor gives an object where the live value is a number, a
  string, a boolean or an array, which the spec leaves to the host's property semantics.
\<close>

datatype ('a, 'b) outcome = Returned 'a | Threw string 'b | Unmodelled

text \<open>
  The state of a running \<^verbatim>\<open>animateTo\<close>: the node, the variable \<^verbatim>\<open>count\<close> of the
  closure \<^verbatim>\<open>done\<close>, and how often the completion callback has been called.
\<close>

record AnimateRun =
  run_el :: Animatable
  run_count :: int
  run_fired :: nat

definition modify :: "ref \<Rightarrow> (Element \<Rightarrow> Element) \<Rightarrow> world \<Rightarrow> world" where
  "modify r f w = w\<lparr>objs := (objs w)(r := f (objs w r))\<rparr>"

definition PRESERVED_NORMAL_STATE :: string where
  "PRESERVED_NORMAL_STATE = ''__zr_normal__''"

text \<open>\<^verbatim>\<open>logError\<close> (core/util): the message goes to the host's error channel.\<close>

definition logError :: "string \<Rightarrow> world \<Rightarrow> world" where
  "logError msg w = w\<lparr>errlog := errlog w @ [msg]\<rparr>"

text \<open>\<^verbatim>\<open>markRedraw\<close>: \<^verbatim>\<open>this.__dirty = true; this.__zr && this.__zr.refresh()\<close>.\<close>

definition markRedraw :: "ref \<Rightarrow> world \<Rightarrow> world" where
  "markRedraw r w =
     (let w1 = modify r (\<lambda>e. e\<lparr>dirty := True\<rparr>) w
      in case zr (objs w1 r) of
           None \<Rightarrow> w1
         | Some z \<Rightarrow> w1\<lparr>refreshed := refreshed w1 @ [z]\<rparr>)"

section \<open>State overlay engine\<close>

text \<open>
  \<^verbatim>\<open>saveStateToNormal\<close>: the snapshot object is created when absent and all of its six
  keys are overwritten. \<^verbatim>\<open>this.origin || [0, 0]\<close>: an array is truthy, so the default
  stands in exactly when the origin is absent.
\<close>

definition saveStateToNormal :: "Element \<Rightarrow> Element" where
  "saveStateToNormal e =
     e\<lparr>normalState := Some
        \<lparr>s_position = position e,
         s_rotation = rotation e,
         s_scale = scale e,
         s_origin = (case origin e of None \<Rightarrow> Some [0, 0] | Some v \<Rightarrow> Some v),
         s_textConfig = textConfig e,
         s_ignore = ignore e\<rparr>\<rparr>"

definition hasState :: "Element \<Rightarrow> bool" where
  "hasState e = (length (currentStates e) > 0)"


definition emptyState :: ElementState where
  "emptyState = \<lparr>s_position = None, s_rotation = None, s_scale = None, s_origin = None,
                  s_textConfig = None, s_ignore = None\<rparr>"

text \<open>
  The read \<^verbatim>\<open>states[name]\<close>. \<^verbatim>\<open>states\<close> is a plain object (the field is initialised
  with \<^verbatim>\<open>{}\<close>), so a name with no entry of its own is looked up in
  \<^verbatim>\<open>Object.prototype\<close>: the names below are found there. What is found is a function, or the prototype itself for \<^verbatim>\<open>__proto__\<close>: a truthy
  value with none of the keys of a state, read as the state that defines nothing.
\<close>

definition objectPrototype :: "string list" where
  "objectPrototype =
     [''constructor'', ''hasOwnProperty'', ''isPrototypeOf'', ''propertyIsEnumerable'',
      ''toLocaleString'', ''toString'', ''valueOf'', ''__proto__'',
      ''__defineGetter__'', ''__defineSetter__'', ''__lookupGetter__'', ''__lookupSetter__'']"

definition readState :: "(string \<rightharpoonup> ElementState) \<Rightarrow> string \<Rightarrow> ElementState option" where
  "readState statesMap name =
     (case statesMap name of
        Some s \<Rightarrow> Some s
      | None \<Rightarrow> if name \<in> set objectPrototype then Some emptyState else None)"

definition getState :: "Element \<Rightarrow> string \<Rightarrow> ElementState option" where
  "getState e name = readState (states e) name"

definition ensureState :: "Element \<Rightarrow> string \<Rightarrow> Element" where
  "ensureState e name =
     (case readState (states e) name of
        None \<Rightarrow> e\<lparr>states := (states e)(name \<mapsto> emptyState)\<rparr>
      | Some s \<Rightarrow> e)"

text \<open>
  Modelled from the spec: \<^verbatim>\<open>extend\<close> of core/util is not among the sources. The label
  configuration "merges by shallow-extending the target state's label config over the
  chosen base": every key of the second object is copied over the first; an absent
  second object copies nothing.
\<close>

definition extend :: "TextConfig \<Rightarrow> TextConfig option \<Rightarrow> TextConfig" where
  "extend target source = (case source of None \<Rightarrow> target | Some s \<Rightarrow> target ++ s)"

text \<open>
  One round of the loop over \<^verbatim>\<open>PRIMARY_STATES_KEYS\<close> in \<^verbatim>\<open>_applyStateObj\<close>, for a
  key whose value in the target state is \<open>sv\<close>, in the snapshot \<open>nv\<close> and on the node
  \<open>cur\<close>. The snapshot is read only in the second branch; when the node has no snapshot
  object (\<open>nv = None\<close>) that read raises a TypeError, the result \<open>None\<close>.
\<close>

definition applyKey ::
  "'a option \<Rightarrow> bool \<Rightarrow> 'a option option \<Rightarrow> 'a option \<Rightarrow> 'a option option" where
  "applyKey sv needsRestoreToNormal nv cur =
     (case sv of
        Some v \<Rightarrow> Some (Some v)
      | None \<Rightarrow> if needsRestoreToNormal then nv else Some cur)"

text \<open>
  \<^verbatim>\<open>_applyStateObj(state, keepCurrentStates)\<close>. \<open>None\<close>: a read of a key of the absent
  snapshot object has raised (the node as the exception leaves it is not modelled).
\<close>

definition applyStateObj :: "ElementState option \<Rightarrow> bool \<Rightarrow> Element \<Rightarrow> Element option" where
  "applyStateObj state keepCurrentStates e =
     (let normal = normalState e;
          needsRestoreToNormal = (state = None \<or> \<not> keepCurrentStates);
          st = (case state of None \<Rightarrow> emptyState | Some s \<Rightarrow> s)
      in do {
        tc \<leftarrow> (case s_textConfig st of
                 Some stc \<Rightarrow>
                   do {
                     base \<leftarrow> (if keepCurrentStates then Some (textConfig e)
                              else map_option s_textConfig normal);
                     Some (Some (extend (extend Map.empty base) (Some stc)))
                   }
               | None \<Rightarrow>
                   if needsRestoreToNormal then map_option s_textConfig normal
                   else Some (textConfig e));
        p \<leftarrow> applyKey (s_position st) needsRestoreToNormal (map_option s_position normal) (position e);
        s \<leftarrow> applyKey (s_scale st) needsRestoreToNormal (map_option s_scale normal) (scale e);
        r \<leftarrow> applyKey (s_rotation st) needsRestoreToNormal (map_option s_rotation normal) (rotation e);
        og \<leftarrow> applyKey (s_origin st) needsRestoreToNormal (map_option s_origin normal) (origin e);
        ig \<leftarrow> applyKey (s_ignore st) needsRestoreToNormal (map_option s_ignore normal) (ignore e);
        Some (e\<lparr>textConfig := tc, position := p, scale := s, rotation := r,
                origin := og, ignore := ig\<rparr>)
      })"

text \<open>
  \<^verbatim>\<open>useState(stateName, keepCurrentStates)\<close> on the node \<open>r\<close>. The call on the attached
  label recurses along the label links of the store, which may be cyclic: the first
  argument bounds the depth of nested calls, and \<open>None\<close> is a call that does not return
  (the bound is exceeded, or \<^verbatim>\<open>_applyStateObj\<close> has raised). The returned state object is
  not modelled.
\<close>

fun useState :: "nat \<Rightarrow> world \<Rightarrow> ref \<Rightarrow> string \<Rightarrow> bool \<Rightarrow> world option" where
  "useState 0 w r stateName keepCurrentStates = None"
| "useState (Suc fuel) w r stateName keepCurrentStates =
     (let toNormalState = (stateName = PRESERVED_NORMAL_STATE) in
      if \<not> hasState (objs w r) \<and> toNormalState then Some w
      else
        let w1 = (if \<not> hasState (objs w r) then modify r saveStateToNormal w else w);
            cs = currentStates (objs w1 r);
            currentStatesCount = length cs;
            lastStateName = (if cs = [] then None else Some (last cs));
            stateNoChange = (Some stateName = lastStateName
                             \<and> (keepCurrentStates \<or> currentStatesCount = 1))
        in
          if stateNoChange then Some w1
          else
            let state = readState (states (objs w1 r)) stateName in
            if state = None \<and> \<not> toNormalState
            then Some (logError (''State '' @ stateName @ '' not exists.'') w1)
            else do {
              e2 \<leftarrow> applyStateObj state keepCurrentStates (objs w1 r);
              w3 \<leftarrow> (case textContent e2 of
                       None \<Rightarrow> Some (modify r (\<lambda>_. e2) w1)
                     | Some t \<Rightarrow> useState fuel (modify r (\<lambda>_. e2) w1) t stateName False);
              Some (markRedraw r
                (modify r (\<lambda>e. e\<lparr>currentStates :=
                    (if toNormalState then []
                     else if \<not> keepCurrentStates then [stateName]
                     else currentStates e @ [stateName])\<rparr>) w3))
            })"

text \<open>\<^verbatim>\<open>clearStates\<close>.\<close>

definition clearStates :: "nat \<Rightarrow> world \<Rightarrow> ref \<Rightarrow> world option" where
  "clearStates fuel w r = useState fuel w r PRESERVED_NORMAL_STATE False"

text \<open>
  \<^verbatim>\<open>useStates(states)\<close>: the loop from index \<open>i\<close> over the rest of the names, each
  applied with \<^verbatim>\<open>keepCurrentStates = i > 0\<close>.
\<close>

fun useStates_loop :: "nat \<Rightarrow> ref \<Rightarrow> string list \<Rightarrow> nat \<Rightarrow> world \<Rightarrow> world option" where
  "useStates_loop fuel r [] i w = Some w"
| "useStates_loop fuel r (name # rest) i w =
     (case useState fuel w r name (i > 0) of
        None \<Rightarrow> None
      | Some w' \<Rightarrow> useStates_loop fuel r rest (Suc i) w')"

definition useStates :: "nat \<Rightarrow> world \<Rightarrow> ref \<Rightarrow> string list \<Rightarrow> world option" where
  "useStates fuel w r names = useStates_loop fuel r names 0 w"

declare useState.simps [simp del]

section \<open>Clip path and host context\<close>

text \<open>
  Modelled from the spec: the scheduler \<^verbatim>\<open>zr.animation\<close> is not among the sources. A node
  "registers/deregisters every active animator with the host's tick scheduler": the
  scheduler of a host is the set of the animators registered with it.
\<close>

text \<open>\<^verbatim>\<open>zr.animation.addAnimator\<close> and \<^verbatim>\<open>zr.animation.removeAnimator\<close>.\<close>

definition animationAddAnimator :: "ZRenderType \<Rightarrow> AnimatorRef \<Rightarrow> world \<Rightarrow> world" where
  "animationAddAnimator z a w = w\<lparr>scheduler := (scheduler w)(z := insert a (scheduler w z))\<rparr>"

definition animationRemoveAnimator :: "ZRenderType \<Rightarrow> AnimatorRef \<Rightarrow> world \<Rightarrow> world" where
  "animationRemoveAnimator z a w = w\<lparr>scheduler := (scheduler w)(z := scheduler w z - {a})\<rparr>"

text \<open>
  \<^verbatim>\<open>addSelfToZr(zr)\<close> and \<^verbatim>\<open>removeSelfFromZr(zr)\<close> on the node \<open>r\<close>. Both recurse
  into the clip path and the label along the links of the store; the first argument
  bounds the depth of the nested calls and \<open>None\<close> is a call that does not return.
\<close>

fun addSelfToZr :: "nat \<Rightarrow> world \<Rightarrow> ref \<Rightarrow> ZRenderType \<Rightarrow> world option" where
  "addSelfToZr 0 w r z = None"
| "addSelfToZr (Suc fuel) w r z =
     (let w1 = modify r (\<lambda>e. e\<lparr>zr := Some z\<rparr>) w;
          w2 = fold (animationAddAnimator z) (animators (objs w1 r)) w1
      in case (case clipPath (objs w2 r) of
                 None \<Rightarrow> Some w2
               | Some c \<Rightarrow> addSelfToZr fuel w2 c z) of
           None \<Rightarrow> None
         | Some w3 \<Rightarrow>
             (case textContent (objs w3 r) of
                None \<Rightarrow> Some w3
              | Some t \<Rightarrow> addSelfToZr fuel w3 t z))"

fun removeSelfFromZr :: "nat \<Rightarrow> world \<Rightarrow> ref \<Rightarrow> ZRenderType \<Rightarrow> world option" where
  "removeSelfFromZr 0 w r z = None"
| "removeSelfFromZr (Suc fuel) w r z =
     (let w1 = modify r (\<lambda>e. e\<lparr>zr := None\<rparr>) w;
          w2 = fold (animationRemoveAnimator z) (animators (objs w1 r)) w1
      in case (case clipPath (objs w2 r) of
                 None \<Rightarrow> Some w2
               | Some c \<Rightarrow> removeSelfFromZr fuel w2 c z) of
           None \<Rightarrow> None
         | Some w3 \<Rightarrow>
             (case textContent (objs w3 r) of
                None \<Rightarrow> Some w3
              | Some t \<Rightarrow> removeSelfFromZr fuel w3 t z))"

definition getClipPath :: "Element \<Rightarrow> ref option" where
  "getClipPath e = clipPath e"

text \<open>\<^verbatim>\<open>removeClipPath()\<close> on the node \<open>r\<close>.\<close>

definition removeClipPath :: "nat \<Rightarrow> world \<Rightarrow> ref \<Rightarrow> world option" where
  "removeClipPath fuel w r =
     (case clipPath (objs w r) of
        None \<Rightarrow> Some w
      | Some c \<Rightarrow>
          (case (case zr (objs w c) of
                   None \<Rightarrow> Some w
                 | Some z \<Rightarrow> removeSelfFromZr fuel w c z) of
             None \<Rightarrow> None
           | Some w1 \<Rightarrow>
               Some (markRedraw r
                 (modify r (\<lambda>e. e\<lparr>clipPath := None\<rparr>)
                   (modify c (\<lambda>e. e\<lparr>clipTarget := None\<rparr>)
                     (modify c (\<lambda>e. e\<lparr>zr := None\<rparr>) w1))))))"

text \<open>
  \<^verbatim>\<open>setClipPath(clipPath)\<close> on the node \<open>r\<close>. The host context \<^verbatim>\<open>zr\<close> is read once, on
  entry; the previous clip path that is removed is the one of this node.
\<close>

definition setClipPath :: "nat \<Rightarrow> world \<Rightarrow> ref \<Rightarrow> ref \<Rightarrow> world option" where
  "setClipPath fuel w r c =
     (let z = zr (objs w r) in
      case (case z of None \<Rightarrow> Some w | Some h \<Rightarrow> addSelfToZr fuel w c h) of
        None \<Rightarrow> None
      | Some w1 \<Rightarrow>
          (case (case clipPath (objs w1 r) of
                   None \<Rightarrow> Some w1
                 | Some p \<Rightarrow> if p \<noteq> c then removeClipPath fuel w1 r else Some w1) of
             None \<Rightarrow> None
           | Some w2 \<Rightarrow>
               Some (markRedraw r
                 (modify c (\<lambda>e. e\<lparr>clipTarget := Some r\<rparr>)
                   (modify c (\<lambda>e. e\<lparr>zr := z\<rparr>)
                     (modify r (\<lambda>e. e\<lparr>clipPath := Some c\<rparr>) w2))))))"

section \<open>Drift\<close>

text \<open>
  Modelled from the spec: \<^verbatim>\<open>decomposeTransform\<close> belongs to Transformable, which is not
  among the sources. It "re-decomposes position/rotation/scale/origin from the matrix":
  the node's position, rotation and scale are rewritten from its matrix, when it has one,
  and the matrix is only read. The arithmetic of the decomposition is the parameter \<open>D\<close>.
\<close>

definition decomposeTransform ::
  "(Element \<Rightarrow> MatrixArray \<Rightarrow> VectorArray \<times> real \<times> VectorArray) \<Rightarrow> Element \<Rightarrow> Element" where
  "decomposeTransform D e =
     (case transform e of
        None \<Rightarrow> e
      | Some m \<Rightarrow>
          (case D e m of
             (p, rot, s) \<Rightarrow> e\<lparr>position := Some p, rotation := Some rot, scale := Some s\<rparr>))"

text \<open>
  \<^verbatim>\<open>drift(dx, dy)\<close> on the node \<open>r\<close>. The \<^verbatim>\<open>switch\<close> compares \<^verbatim>\<open>this.draggable\<close> with
  the two strings; a boolean matches neither case.
\<close>

definition drift ::
  "(Element \<Rightarrow> MatrixArray \<Rightarrow> VectorArray \<times> real \<times> VectorArray) \<Rightarrow>
     ref \<Rightarrow> real \<Rightarrow> real \<Rightarrow> world \<Rightarrow> world" where
  "drift D r dx dy w =
     (let e = objs w r;
          (dx1, dy1) =
            (case draggable e of
               DragStr s \<Rightarrow>
                 if s = ''horizontal'' then (dx, 0)
                 else if s = ''vertical'' then (0, dy)
                 else (dx, dy)
             | DragBool b \<Rightarrow> (dx, dy));
          m = (case transform e of None \<Rightarrow> (1, 0, 0, 1, 0, 0) | Some t \<Rightarrow> t);
          m1 = (case m of (a, b, c, d, tx, ty) \<Rightarrow> (a, b, c, d, tx + dx1, ty + dy1))
      in markRedraw r
           (modify r (\<lambda>e. decomposeTransform D (e\<lparr>transform := Some m1\<rparr>)) w))"

declare addSelfToZr.simps [simp del] removeSelfFromZr.simps [simp del]

section \<open>Animation\<close>

definition keys :: "Dictionary \<Rightarrow> string list" where
  "keys obj = map fst obj"

definition getProp :: "Dictionary \<Rightarrow> string \<Rightarrow> jsval" where
  "getProp obj key = (case map_of obj key of None \<Rightarrow> JNull | Some v \<Rightarrow> v)"

fun setProp :: "Dictionary \<Rightarrow> string \<Rightarrow> jsval \<Rightarrow> Dictionary" where
  "setProp [] key v = [(key, v)]"
| "setProp ((k, u) # rest) key v =
     (if k = key then (key, v) # rest else (k, u) # setProp rest key v)"

text \<open>
  Modelled from the spec: \<^verbatim>\<open>isObject\<close> and \<^verbatim>\<open>isArrayLike\<close> of core/util are not among
  the sources. The guard of \<^verbatim>\<open>animateToShallow\<close> singles out "a value that is itself a
  non-array object": arrays and objects are objects, and arrays are array-like.
\<close>

fun isObject :: "jsval \<Rightarrow> bool" where
  "isObject (JObj obj) = True"
| "isObject (JArr xs) = True"
| "isObject v = False"

fun isArrayLike :: "jsval \<Rightarrow> bool" where
  "isArrayLike (JArr xs) = True"
| "isArrayLike v = False"

fun isString :: "arg \<Rightarrow> bool" where
  "isString (ArgStr s) = True"
| "isString a = False"

fun isFunction :: "arg \<Rightarrow> bool" where
  "isFunction ArgFn = True"
| "isFunction a = False"

fun truthy :: "arg \<Rightarrow> bool" where
  "truthy ArgUndefined = False"
| "truthy (ArgNum x) = (x \<noteq> 0)"
| "truthy (ArgStr s) = (s \<noteq> [])"
| "truthy ArgFn = True"

text \<open>
  \<^verbatim>\<open>addAnimator(animator, key)\<close>. The \<^verbatim>\<open>done\<close> closure captures the node's array of
  that moment, which is the node's array until the next \<^verbatim>\<open>stopAnimation\<close>.
\<close>

definition addAnimator :: "Animator \<Rightarrow> string \<Rightarrow> Animatable \<Rightarrow> Animatable" where
  "addAnimator animator key el =
     (let a = animator\<lparr>a_duringKey := Some key,
                        a_doneList := a_doneList animator @ [SpliceFromAnimators]\<rparr>
      in el\<lparr>an_animators := an_animators el @ [a],
            an_scheduled := (case an_zr el of
                               None \<Rightarrow> an_scheduled el
                             | Some z \<Rightarrow> an_scheduled el @ [a_id a])\<rparr>)"

text \<open>
  The tail of \<^verbatim>\<open>animateToShallow\<close>, reached when there is a key to animate: the swap
  of source and target for \<^verbatim>\<open>reverse\<close>, and the new animator.
\<close>

definition swapForReverse ::
  "Dictionary \<Rightarrow> string list \<Rightarrow> Dictionary \<Rightarrow> Dictionary \<times> Dictionary" where
  "swapForReverse target animatableKeys source =
     fold (\<lambda>innerKey (reversedTarget, src).
             (setProp reversedTarget innerKey (getProp src innerKey),
              setProp src innerKey (getProp target innerKey)))
       animatableKeys ([], source)"

definition createAnimator ::
  "string \<Rightarrow> string list \<Rightarrow> Dictionary \<Rightarrow> Dictionary \<Rightarrow> string list \<Rightarrow> arg \<Rightarrow> arg \<Rightarrow> bool \<Rightarrow>
     Animatable \<Rightarrow> Dictionary \<times> Animatable" where
  "createAnimator topKey path source target animatableKeys time delay reverse el =
     (let (reversedTarget, source1) =
            (if reverse then swapForReverse target animatableKeys source else ([], source));
          animator =
            \<lparr>a_id = an_fresh el, a_target = path, a_loop = False,
             a_time = (if time = ArgUndefined then ArgNum 500 else time),
             a_props = (if reverse then reversedTarget else target),
             a_keys = animatableKeys,
             a_delay = (if truthy delay then delay else ArgNum 0),
             a_duringKey = None, a_doneList = [], a_started = False, a_easing = ArgUndefined\<rparr>
      in (source1, addAnimator animator topKey (el\<lparr>an_fresh := Suc (an_fresh el)\<rparr>)))"

text \<open>The size of a descriptor: its recursion descends into the values of its entries.\<close>

definition descriptorSize :: "Dictionary \<Rightarrow> nat" where
  "descriptorSize obj = size_list (size_prod (\<lambda>k. 0) size) obj"

text \<open>
  \<^verbatim>\<open>animateToShallow(animatable, topKey, source, target, time, delay, reverse)\<close> and its
  loop over \<^verbatim>\<open>keys(target)\<close>. The object \<^verbatim>\<open>source\<close> is passed by value and handed back
  as the call leaves it; \<open>path\<close> is where it sits under the node. \<^verbatim>\<open>if (topKey)\<close>: the
  empty string is falsy.
\<close>

function animateToShallow ::
    "string \<Rightarrow> string list \<Rightarrow> Dictionary \<Rightarrow> Dictionary \<Rightarrow> arg \<Rightarrow> arg \<Rightarrow> bool \<Rightarrow> Animatable \<Rightarrow>
       (Dictionary \<times> Animatable, Dictionary \<times> Animatable) outcome"
  and shallowLoop ::
    "string \<Rightarrow> string list \<Rightarrow> Dictionary \<Rightarrow> string list \<Rightarrow> arg \<Rightarrow> arg \<Rightarrow> bool \<Rightarrow>
       string list \<Rightarrow> Dictionary \<Rightarrow> Animatable \<Rightarrow>
       (string list \<times> Dictionary \<times> Animatable, Dictionary \<times> Animatable) outcome"
  where
  "animateToShallow topKey path source target time delay reverse el =
     (case shallowLoop topKey path target (keys target) time delay reverse [] source el of
        Returned (animatableKeys, source1, el1) \<Rightarrow>
          Returned (if length animatableKeys > 0
                    then createAnimator topKey path source1 target animatableKeys time delay reverse el1
                    else (source1, el1))
      | Threw msg st \<Rightarrow> Threw msg st
      | Unmodelled \<Rightarrow> Unmodelled)"
| "shallowLoop topKey path target [] time delay reverse animatableKeys source el =
     Returned (animatableKeys, source, el)"
| "shallowLoop topKey path target (innerKey # rest) time delay reverse animatableKeys source el =
     (if getProp source innerKey \<noteq> JNull then
        (if isObject (getProp target innerKey) \<and> \<not> isArrayLike (getProp target innerKey) then
           (if topKey \<noteq> [] then
              Threw ''Only support 1 depth nest object animation.'' (source, el)
            else
              (case getProp target innerKey of
                 JObj subTarget \<Rightarrow>
                   (case getProp source innerKey of
                      JObj sub \<Rightarrow>
                        (case animateToShallow innerKey (path @ [innerKey]) sub subTarget
                                time delay reverse el of
                           Returned (sub1, el1) \<Rightarrow>
                             shallowLoop topKey path target rest time delay reverse animatableKeys
                               (setProp source innerKey (JObj sub1)) el1
                         | Threw msg (sub1, el1) \<Rightarrow>
                             Threw msg (setProp source innerKey (JObj sub1), el1)
                         | Unmodelled \<Rightarrow> Unmodelled)
                    | _ \<Rightarrow> Unmodelled)
               | _ \<Rightarrow> Unmodelled))
         else
           shallowLoop topKey path target rest time delay reverse
             (animatableKeys @ [innerKey]) source el)
      else if getProp target innerKey \<noteq> JNull \<and> \<not> reverse then
        shallowLoop topKey path target rest time delay reverse animatableKeys
          (setProp source innerKey (getProp target innerKey)) el
      else
        shallowLoop topKey path target rest time delay reverse animatableKeys source el)"
  by pat_completeness auto


lemma getProp_size: "getProp obj key = JObj sub \<Longrightarrow> descriptorSize sub < descriptorSize obj"
proof (induction obj)
  case Nil
  then show ?case by (simp add: getProp_def)
next
  case (Cons e obj)
  obtain k v where e: "e = (k, v)" by (cases e)
  show ?case
  proof (cases "k = key")
    case True
    with Cons.prems e have "v = JObj sub" by (simp add: getProp_def)
    then show ?thesis by (simp add: e descriptorSize_def)
  next
    case False
    with Cons.prems e have "getProp obj key = JObj sub" by (simp add: getProp_def)
    from Cons.IH[OF this] show ?thesis by (simp add: e descriptorSize_def)
  qed
qed

termination animateToShallow
  by (relation "inv_image (less_than <*lex*> less_than)
     (\<lambda>x. case x of
        Inl (topKey, path, source, target, rest) \<Rightarrow> (descriptorSize target, Suc (length target))
      | Inr (topKey, path, target, ks, rest) \<Rightarrow> (descriptorSize target, length ks))")
     (auto simp: keys_def getProp_size)

text \<open>The object at a path of keys under the node, read and rewritten.\<close>

fun lookupAt :: "string list \<Rightarrow> Dictionary \<Rightarrow> Dictionary option" where
  "lookupAt [] obj = Some obj"
| "lookupAt (k # path) obj =
     (case getProp obj k of JObj sub \<Rightarrow> lookupAt path sub | _ \<Rightarrow> None)"

fun updateAt :: "string list \<Rightarrow> (Dictionary \<Rightarrow> Dictionary) \<Rightarrow> Dictionary \<Rightarrow> Dictionary" where
  "updateAt [] f obj = f obj"
| "updateAt (k # path) f obj =
     (case getProp obj k of
        JObj sub \<Rightarrow> setProp obj k (JObj (updateAt path f sub))
      | _ \<Rightarrow> obj)"

text \<open>
  Modelled from the spec: class Animator is not among the sources. An animator "runs one
  interpolation track set against a single target object"; when it is done its target
  holds the values of its last keyframe, it "fires completion callback, self-removes from
  its owner's animator list". \<^verbatim>\<open>stop\<close> ends it without the callbacks, and "if
  \<^verbatim>\<open>jumpToEnd\<close> is set each animator's target values are applied synchronously before
  removal". \<^verbatim>\<open>start\<close> finishes at once when there is nothing to animate ("animating a
  target identical to current values without \<^verbatim>\<open>forceAnimate\<close>" resolves "silently and
  synchronously"; \<^verbatim>\<open>forceAnimate\<close> "suppresses the nothing to animate, finish immediately
  shortcut"), as the comments of \<^verbatim>\<open>animateTo\<close> say: "Animators may be removed
  immediately after start if there is nothing to animate".
\<close>

definition writeKeyframe :: "Animator \<Rightarrow> Dictionary \<Rightarrow> Dictionary" where
  "writeKeyframe a tgt = fold (\<lambda>k t. setProp t k (getProp (a_props a) k)) (a_keys a) tgt"

definition applyKeyframe :: "Animator \<Rightarrow> Dictionary \<Rightarrow> Dictionary" where
  "applyKeyframe a obj = updateAt (a_target a) (writeKeyframe a) obj"

definition nothingToAnimate :: "Animator \<Rightarrow> Dictionary \<Rightarrow> bool" where
  "nothingToAnimate a obj =
     (case lookupAt (a_target a) obj of
        None \<Rightarrow> True
      | Some tgt \<Rightarrow> list_all (\<lambda>k. getProp tgt k = getProp (a_props a) k) (a_keys a))"

text \<open>
  \<^verbatim>\<open>stopAnimation(forwardToLast)\<close>: every animator is stopped and the node gets a new,
  empty array.
\<close>

definition stopAnimation :: "bool \<Rightarrow> Animatable \<Rightarrow> Animatable" where
  "stopAnimation forwardToLast el =
     el\<lparr>an_props := (if forwardToLast
                      then fold applyKeyframe (filter a_started (an_animators el)) (an_props el)
                      else an_props el),
        an_animators := []\<rparr>"

text \<open>The normalization of the trailing arguments at the head of \<^verbatim>\<open>animateTo\<close>.\<close>

definition normalizeArgs :: "arg \<Rightarrow> arg \<Rightarrow> arg \<Rightarrow> arg \<Rightarrow> arg \<times> arg \<times> arg \<times> arg" where
  "normalizeArgs time delay easing callback =
     (if isString delay then (time, ArgNum 0, delay, easing)
      else if isFunction easing then (time, ArgNum 0, ArgStr ''linear'', easing)
      else if isFunction delay then (time, ArgNum 0, easing, delay)
      else if isFunction time then (ArgNum 500, delay, easing, time)
      else if \<not> truthy time then (ArgNum 500, delay, easing, callback)
      else (time, delay, easing, callback))"

text \<open>\<^verbatim>\<open>callback && callback()\<close>, for a callback that is a function or absent.\<close>

definition invokeCallback :: "arg \<Rightarrow> AnimateRun \<Rightarrow> AnimateRun" where
  "invokeCallback callback run =
     (if isFunction callback then run\<lparr>run_fired := Suc (run_fired run)\<rparr> else run)"

text \<open>The closure \<^verbatim>\<open>done\<close> of \<^verbatim>\<open>animateTo\<close>.\<close>

definition countDown :: "arg \<Rightarrow> AnimateRun \<Rightarrow> AnimateRun" where
  "countDown callback run =
     (let run1 = run\<lparr>run_count := run_count run - 1\<rparr>
      in if run_count run1 = 0 then invokeCallback callback run1 else run1)"

text \<open>
  \<^verbatim>\<open>animators.splice(indexOf(animators, animator), 1)\<close>, the closure of
  \<^verbatim>\<open>addAnimator\<close>: \<^verbatim>\<open>indexOf\<close> is -1 for an animator that is not in the array, and
  \<^verbatim>\<open>splice\<close> counts a negative start from the end.
\<close>

fun indexOf :: "Animator list \<Rightarrow> nat \<Rightarrow> int" where
  "indexOf [] ident = -1"
| "indexOf (a # rest) ident =
     (if a_id a = ident then 0
      else (let i = indexOf rest ident in if i < 0 then -1 else i + 1))"

definition splice1 :: "int \<Rightarrow> 'a list \<Rightarrow> 'a list" where
  "splice1 start xs =
     (let len = int (length xs);
          s = nat (if start < 0 then max (len + start) 0 else min start len)
      in take s xs @ drop (Suc s) xs)"

text \<open>The \<^verbatim>\<open>done\<close> closures of an animator, called in the order of their registration.\<close>

definition fireDone :: "arg \<Rightarrow> Animator \<Rightarrow> AnimateRun \<Rightarrow> AnimateRun" where
  "fireDone callback a run =
     fold (\<lambda>cb r.
             case cb of
               SpliceFromAnimators \<Rightarrow>
                 r\<lparr>run_el := (run_el r)\<lparr>an_animators :=
                     splice1 (indexOf (an_animators (run_el r)) (a_id a))
                       (an_animators (run_el r))\<rparr>\<rparr>
             | CountDown \<Rightarrow> countDown callback r)
       (a_doneList a) run"

text \<open>
  \<^verbatim>\<open>animators[i].done(done).start(easing, forceAnimate)\<close>, one round of the loop at the
  end of \<^verbatim>\<open>animateTo\<close>; the loop calls it with \<open>i\<close> inside the array.
\<close>

definition startAnimator :: "arg \<Rightarrow> arg \<Rightarrow> bool \<Rightarrow> nat \<Rightarrow> AnimateRun \<Rightarrow> AnimateRun" where
  "startAnimator callback easing forceAnimate i run =
     (let animators = an_animators (run_el run) in
      if i < length animators then
        (let a1 = (animators ! i)\<lparr>a_doneList := a_doneList (animators ! i) @ [CountDown]\<rparr>;
             a2 = (if a_started a1 then a1 else a1\<lparr>a_started := True, a_easing := easing\<rparr>);
             run1 = run\<lparr>run_el := (run_el run)\<lparr>an_animators := animators[i := a2]\<rparr>\<rparr>
         in if \<not> a_started a1 \<and> nothingToAnimate a2 (an_props (run_el run1)) \<and> \<not> forceAnimate
            then fireDone callback a2 run1
            else run1)
      else run)"

lemma fireDone_length:
  "length (an_animators (run_el (fireDone callback a run))) \<le> length (an_animators (run_el run))"
proof -
  have "length (an_animators (run_el (fold (\<lambda>cb r.
             case cb of
               SpliceFromAnimators \<Rightarrow>
                 r\<lparr>run_el := (run_el r)\<lparr>an_animators :=
                     splice1 (indexOf (an_animators (run_el r)) (a_id a))
                       (an_animators (run_el r))\<rparr>\<rparr>
             | CountDown \<Rightarrow> countDown callback r) cbs run)))
          \<le> length (an_animators (run_el run))" for cbs
  proof (induction cbs arbitrary: run)
    case Nil
    then show ?case by simp
  next
    case (Cons cb cbs)
    show ?case
    proof (cases cb)
      case SpliceFromAnimators
      have "length (splice1 (indexOf (an_animators (run_el run)) (a_id a)) (an_animators (run_el run)))
              \<le> length (an_animators (run_el run))"
        by (simp add: splice1_def Let_def)
      with Cons.IH[of "run\<lparr>run_el := (run_el run)\<lparr>an_animators :=
                     splice1 (indexOf (an_animators (run_el run)) (a_id a))
                       (an_animators (run_el run))\<rparr>\<rparr>"]
      show ?thesis by (simp add: SpliceFromAnimators)
    next
      case CountDown
      have "an_animators (run_el (countDown callback run)) = an_animators (run_el run)"
        by (simp add: countDown_def invokeCallback_def Let_def)
      with Cons.IH[of "countDown callback run"] show ?thesis by (simp add: CountDown)
    qed
  qed
  then show ?thesis by (simp add: fireDone_def)
qed

lemma startAnimator_length:
  "length (an_animators (run_el (startAnimator callback easing forceAnimate i run)))
     \<le> length (an_animators (run_el run))"
proof -
  have "length (an_animators (run_el (fireDone callback a r))) \<le> length (an_animators (run_el run))"
    if "length (an_animators (run_el r)) = length (an_animators (run_el run))" for a r
    using fireDone_length[of callback a r] that by simp
  then show ?thesis
    by (simp add: startAnimator_def Let_def)
qed

text \<open>
  The loop \<^verbatim>\<open>for (let i = 0; i < animators.length; i++)\<close> at the end of
  \<^verbatim>\<open>animateTo\<close>: \<^verbatim>\<open>animators\<close> is the node's live array, read again at every round.
\<close>

function startLoop :: "arg \<Rightarrow> arg \<Rightarrow> bool \<Rightarrow> nat \<Rightarrow> AnimateRun \<Rightarrow> AnimateRun" where
  "startLoop callback easing forceAnimate i run =
     (if i < length (an_animators (run_el run))
      then startLoop callback easing forceAnimate (Suc i)
             (startAnimator callback easing forceAnimate i run)
      else run)"
  by pat_completeness auto

termination startLoop
proof (relation "measure (\<lambda>(callback, easing, forceAnimate, i, run).
          length (an_animators (run_el run)) - i)", goal_cases)
  case 1
  then show ?case by simp
next
  case (2 callback easing forceAnimate i run)
  then show ?case
    using startAnimator_length[of callback easing forceAnimate i run] by simp
qed

text \<open>
  The function \<^verbatim>\<open>animateTo(animatable, target, time, delay, easing, callback,
  forceAnimate, reverse)\<close>. A throw of \<^verbatim>\<open>animateToShallow\<close> leaves the node as the
  throw found it.
\<close>

definition animateTo ::
  "Animatable \<Rightarrow> Dictionary \<Rightarrow> arg \<Rightarrow> arg \<Rightarrow> arg \<Rightarrow> arg \<Rightarrow> bool \<Rightarrow> bool \<Rightarrow>
     (AnimateRun, Animatable) outcome" where
  "animateTo animatable target time0 delay0 easing0 callback0 forceAnimate reverse =
     (case normalizeArgs time0 delay0 easing0 callback0 of
        (time, delay, easing, callback) \<Rightarrow>
          (let el0 = stopAnimation False animatable in
           case animateToShallow [] [] (an_props el0) target time delay reverse el0 of
             Unmodelled \<Rightarrow> Unmodelled
           | Threw msg (source1, el1) \<Rightarrow> Threw msg (el1\<lparr>an_props := source1\<rparr>)
           | Returned (source1, el1) \<Rightarrow>
               (let el2 = el1\<lparr>an_props := source1\<rparr>;
                    run0 = \<lparr>run_el = el2, run_count = int (length (an_animators el2)),
                            run_fired = 0\<rparr>;
                    run1 = (if run_count run0 = 0 then invokeCallback callback run0 else run0)
                in Returned (startLoop callback easing forceAnimate 0 run1))))"

text \<open>The methods \<^verbatim>\<open>animateTo\<close> and \<^verbatim>\<open>animateFrom\<close> of the node.\<close>

definition elementAnimateTo ::
  "Animatable \<Rightarrow> Dictionary \<Rightarrow> arg \<Rightarrow> arg \<Rightarrow> arg \<Rightarrow> arg \<Rightarrow> bool \<Rightarrow> (AnimateRun, Animatable) outcome" where
  "elementAnimateTo el target time delay easing callback forceAnimate =
     animateTo el target time delay easing callback forceAnimate False"

definition animateFrom ::
  "Animatable \<Rightarrow> Dictionary \<Rightarrow> arg \<Rightarrow> arg \<Rightarrow> arg \<Rightarrow> arg \<Rightarrow> bool \<Rightarrow> (AnimateRun, Animatable) outcome" where
  "animateFrom el target time delay easing callback forceAnimate =
     animateTo el target time delay easing callback forceAnimate True"

text \<open>
  Modelled from the spec: the host's tick that brings the animator of identity \<open>ident\<close> to
  its end. An animator that was started and is still in the node's array gets its last
  keyframe written into its target and its \<^verbatim>\<open>done\<close> closures called.
\<close>

definition completeAnimator :: "arg \<Rightarrow> nat \<Rightarrow> AnimateRun \<Rightarrow> AnimateRun" where
  "completeAnimator callback ident run =
     (case filter (\<lambda>a. a_id a = ident \<and> a_started a) (an_animators (run_el run)) of
        [] \<Rightarrow> run
      | a # rest \<Rightarrow>
          fireDone callback a
            (run\<lparr>run_el := (run_el run)\<lparr>an_props := applyKeyframe a (an_props (run_el run))\<rparr>\<rparr>))"

declare animateToShallow.simps [simp del] shallowLoop.simps [simp del] startLoop.simps [simp del]

definition label_ranked :: "(ref \<Rightarrow> nat) \<Rightarrow> world \<Rightarrow> bool" where
  "label_ranked rk w = (\<forall>x t. textContent (objs w x) = Some t \<longrightarrow> rk t < rk x)"

definition snapshot_present :: "world \<Rightarrow> bool" where
  "snapshot_present w = (\<forall>x. currentStates (objs w x) \<noteq> [] \<longrightarrow> normalState (objs w x) \<noteq> None)"

definition stateNoChange :: "Element \<Rightarrow> string \<Rightarrow> bool \<Rightarrow> bool" where
  "stateNoChange e name keep =
     (currentStates e \<noteq> [] \<and> name = last (currentStates e) \<and> (keep \<or> length (currentStates e) = 1))"

definition pushState :: "string \<Rightarrow> bool \<Rightarrow> Element \<Rightarrow> Element" where
  "pushState name keep e = e\<lparr>currentStates :=
                    (if name = PRESERVED_NORMAL_STATE then []
                     else if \<not> keep then [name]
                     else currentStates e @ [name])\<rparr>"

definition saved :: "ref \<Rightarrow> world \<Rightarrow> world" where
  "saved x w = (if \<not> hasState (objs w x) then modify x saveStateToNormal w else w)"

definition notFoundMsg :: "string \<Rightarrow> string" where
  "notFoundMsg name = ''State '' @ name @ '' not exists.''"

definition labelCall :: "nat \<Rightarrow> ref \<Rightarrow> string \<Rightarrow> Element \<Rightarrow> world \<Rightarrow> world option" where
  "labelCall n x name e2 w1 =
     (case textContent e2 of None \<Rightarrow> Some (modify x (\<lambda>_. e2) w1)
               | Some t \<Rightarrow> useState n (modify x (\<lambda>_. e2) w1) t name False)"

definition finish :: "ref \<Rightarrow> string \<Rightarrow> bool \<Rightarrow> world \<Rightarrow> world" where
  "finish x name keep w3 = markRedraw x (modify x (pushState name keep) w3)"

definition overlay :: "'a option \<Rightarrow> bool \<Rightarrow> 'a option \<Rightarrow> 'a option \<Rightarrow> 'a option" where
  "overlay sv restore nv cur = (case sv of Some v \<Rightarrow> Some v | None \<Rightarrow> if restore then nv else cur)"

definition overlayConfig ::
  "TextConfig option \<Rightarrow> bool \<Rightarrow> bool \<Rightarrow> TextConfig option \<Rightarrow> TextConfig option \<Rightarrow> TextConfig option" where
  "overlayConfig sv keep restore nv cur =
     (case sv of
        Some stc \<Rightarrow> Some (extend (extend Map.empty (if keep then cur else nv)) (Some stc))
      | None \<Rightarrow> if restore then nv else cur)"

definition applied :: "ElementState option \<Rightarrow> bool \<Rightarrow> ElementState \<Rightarrow> Element \<Rightarrow> Element" where
  "applied state keep ns e =
     (let restore = (state = None \<or> \<not> keep);
          st = (case state of None \<Rightarrow> emptyState | Some s \<Rightarrow> s)
      in e\<lparr>textConfig := overlayConfig (s_textConfig st) keep restore (s_textConfig ns) (textConfig e),
           position := overlay (s_position st) restore (s_position ns) (position e),
           scale := overlay (s_scale st) restore (s_scale ns) (scale e),
           rotation := overlay (s_rotation st) restore (s_rotation ns) (rotation e),
           origin := overlay (s_origin st) restore (s_origin ns) (origin e),
           ignore := overlay (s_ignore st) restore (s_ignore ns) (ignore e)\<rparr>)"

fun useState_calls :: "nat \<Rightarrow> ref \<Rightarrow> (string \<times> bool) list \<Rightarrow> world \<Rightarrow> world option" where
  "useState_calls fuel r [] w = Some w"
| "useState_calls fuel r (c # rest) w =
     (case useState fuel w r (fst c) (snd c) of
        None \<Rightarrow> None
      | Some w' \<Rightarrow> useState_calls fuel r rest w')"

definition fresh_element :: Element where
  "fresh_element =
     \<lparr>ignore = Some False, draggable = DragBool False,
      position = Some [0, 0], rotation = Some 0, scale = Some [1, 1], origin = None,
      transform = None, animators = [], zr = None, dirty = True,
      clipPath = None, textContent = None, clipTarget = None, textConfig = None,
      currentStates = [], states = Map.empty, normalState = None\<rparr>"

definition fresh_world :: world where
  "fresh_world = \<lparr>objs = (\<lambda>_. fresh_element), scheduler = (\<lambda>_. {}), refreshed = [], errlog = []\<rparr>"

definition hover_world :: world where
  "hover_world =
     modify 0 (\<lambda>e. e\<lparr>states := [''hover'' \<mapsto> emptyState\<lparr>s_rotation := Some 1\<rparr>]\<rparr>) fresh_world"

definition node_after :: "world option \<Rightarrow> ref \<Rightarrow> Element option" where
  "node_after res r = map_option (\<lambda>w. objs w r) res"

definition precedence :: "'a option \<Rightarrow> 'a option \<Rightarrow> 'a option \<Rightarrow> 'a option" where
  "precedence b a n =
     (case b of Some v \<Rightarrow> Some v | None \<Rightarrow> (case a of Some v \<Rightarrow> Some v | None \<Rightarrow> n))"

definition configKey :: "TextConfig option \<Rightarrow> string \<Rightarrow> jsval option" where
  "configKey cfg k = (case cfg of None \<Rightarrow> None | Some m \<Rightarrow> m k)"

definition baseline :: "Element \<Rightarrow> ElementState option" where
  "baseline e = (if currentStates e = [] then normalState (saveStateToNormal e) else normalState e)"

definition layered ::
  "string list \<Rightarrow> string \<Rightarrow> string \<Rightarrow> 'a option \<Rightarrow> 'a option \<Rightarrow> 'a option \<Rightarrow> 'a option \<Rightarrow> 'a option" where
  "layered cs a b vb va n cur =
     (if cs = [a] then (if b = a then cur else precedence vb None cur)
      else precedence vb va n)"

definition layers_world :: world where
  "layers_world =
     modify 0 (\<lambda>e. e\<lparr>states :=
        [''emphasis'' \<mapsto> emptyState\<lparr>s_rotation := Some 1, s_scale := Some [2, 2]\<rparr>,
         ''select'' \<mapsto> emptyState\<lparr>s_rotation := Some 3\<rparr>]\<rparr>) fresh_world"

definition returned_world :: world where
  "returned_world =
     modify 0 (\<lambda>e. e\<lparr>origin := Some [0, 0],
        normalState := Some \<lparr>s_position = Some [0, 0], s_rotation = Some 0, s_scale = Some [1, 1],
          s_origin = Some [0, 0], s_textConfig = None, s_ignore = Some False\<rparr>\<rparr>) hover_world"

definition rotated_world :: world where
  "rotated_world = modify 0 (\<lambda>e. e\<lparr>rotation := Some 2\<rparr>) returned_world"


definition emphasis_world :: world where
  "emphasis_world =
     modify 0 (\<lambda>e. e\<lparr>rotation := Some 1, scale := Some [2, 2], origin := Some [0, 0],
        currentStates := [''emphasis''],
        normalState := Some \<lparr>s_position = Some [0, 0], s_rotation = Some 0, s_scale = Some [1, 1],
          s_origin = Some [0, 0], s_textConfig = None, s_ignore = Some False\<rparr>\<rparr>) layers_world"

definition resized_world :: world where
  "resized_world = modify 0 (\<lambda>e. e\<lparr>scale := Some [5, 5]\<rparr>) emphasis_world"
definition component_ranked :: "(ref \<Rightarrow> nat) \<Rightarrow> world \<Rightarrow> bool" where
  "component_ranked rk w =
     (\<forall>x y. clipPath (objs w x) = Some y \<or> textContent (objs w x) = Some y \<longrightarrow> rk y < rk x)"

definition zr_only :: "world \<Rightarrow> world \<Rightarrow> bool" where
  "zr_only w w' =
     ((\<forall>y. objs w' y = (objs w y)\<lparr>zr := zr (objs w' y)\<rparr>)
      \<and> refreshed w' = refreshed w \<and> errlog w' = errlog w)"

definition enter :: "ref \<Rightarrow> ZRenderType \<Rightarrow> world \<Rightarrow> world" where
  "enter r z w =
     fold (animationAddAnimator z) (animators (objs (modify r (\<lambda>e. e\<lparr>zr := Some z\<rparr>) w) r))
       (modify r (\<lambda>e. e\<lparr>zr := Some z\<rparr>) w)"

definition leave :: "ref \<Rightarrow> ZRenderType \<Rightarrow> world \<Rightarrow> world" where
  "leave r z w =
     fold (animationRemoveAnimator z) (animators (objs (modify r (\<lambda>e. e\<lparr>zr := None\<rparr>) w) r))
       (modify r (\<lambda>e. e\<lparr>zr := None\<rparr>) w)"

definition grows :: "ZRenderType \<Rightarrow> world \<Rightarrow> world \<Rightarrow> bool" where
  "grows z w w' =
     (zr_only w w'
      \<and> (\<forall>y. zr (objs w' y) = Some z \<or> zr (objs w' y) = zr (objs w y))
      \<and> scheduler w z \<subseteq> scheduler w' z
      \<and> (\<forall>h. h \<noteq> z \<longrightarrow> scheduler w' h = scheduler w h))"

definition shrinks :: "ZRenderType \<Rightarrow> world \<Rightarrow> world \<Rightarrow> bool" where
  "shrinks z w w' =
     (zr_only w w'
      \<and> (\<forall>y. zr (objs w' y) = None \<or> zr (objs w' y) = zr (objs w y))
      \<and> scheduler w' z \<subseteq> scheduler w z
      \<and> (\<forall>h. h \<noteq> z \<longrightarrow> scheduler w' h = scheduler w h))"

definition clip_world :: world where
  "clip_world =
     modify 1 (\<lambda>e. e\<lparr>animators := [11], clipTarget := Some 0\<rparr>)
       (modify 0 (\<lambda>e. e\<lparr>animators := [10], clipPath := Some 1\<rparr>) fresh_world)"

definition clip_rank :: "ref \<Rightarrow> nat" where
  "clip_rank x = (if x = 0 then 1 else 0)"

definition drag_world :: "string \<Rightarrow> world" where
  "drag_world mode = modify 0 (\<lambda>e. e\<lparr>draggable := DragStr mode\<rparr>) fresh_world"

definition unitDecompose :: "Element \<Rightarrow> MatrixArray \<Rightarrow> VectorArray \<times> real \<times> VectorArray" where
  "unitDecompose e m = (case m of (a, b, c, d, tx, ty) \<Rightarrow> ([tx, ty], 0, [1, 1]))"

subsection \<open>Notions used to state the animation properties\<close>

text \<open>
  The test \<^verbatim>\<open>isObject(v) && !isArrayLike(v)\<close> of \<^verbatim>\<open>animateToShallow\<close>: the descriptor's
  value is an object to descend into, not a leaf.
\<close>

definition plainObject :: "jsval \<Rightarrow> bool" where
  "plainObject v = (isObject v \<and> \<not> isArrayLike v)"

text \<open>The message of the error thrown by \<^verbatim>\<open>animateToShallow\<close>.\<close>

definition nestingError :: string where
  "nestingError = ''Only support 1 depth nest object animation.''"

text \<open>
  A key that \<^verbatim>\<open>animateToShallow\<close> animates: the live object has a value for it and the
  descriptor's value is a leaf.
\<close>

definition animatable :: "Dictionary \<Rightarrow> Dictionary \<Rightarrow> string \<Rightarrow> bool" where
  "animatable source target k = (getProp source k \<noteq> JNull \<and> \<not> plainObject (getProp target k))"


text \<open>
  The direct assignments \<^verbatim>\<open>source[innerKey] = target[innerKey]\<close> of the loop over the keys
  \<open>ks\<close>, made where the live value is absent and the descriptor's is not.
\<close>

definition assignAbsent :: "Dictionary \<Rightarrow> string list \<Rightarrow> Dictionary \<Rightarrow> Dictionary" where
  "assignAbsent target ks source =
     fold (\<lambda>k s. if getProp s k = JNull \<and> getProp target k \<noteq> JNull
                 then setProp s k (getProp target k) else s) ks source"



text \<open>The host ticks every animator still on the node to completion, in their order.\<close>

definition tickAll :: "arg \<Rightarrow> AnimateRun \<Rightarrow> AnimateRun" where
  "tickAll callback run =
     fold (completeAnimator callback) (map a_id (an_animators (run_el run))) run"

text \<open>A node outside any host context, without animators, with the given properties.\<close>

definition bare :: "Dictionary \<Rightarrow> Animatable" where
  "bare props = \<lparr>an_props = props, an_animators = [], an_zr = None, an_scheduled = [], an_fresh = 0\<rparr>"





text \<open>
  A node with \<^verbatim>\<open>shape: {w: 1}\<close> and \<^verbatim>\<open>style: {o: 0}\<close>, and the descriptor
  \<^verbatim>\<open>{shape: {w: 1}, style: {o: 1}}\<close>: nothing to animate in \<^verbatim>\<open>shape\<close>, one value to
  animate in \<^verbatim>\<open>style\<close>. \<open>stalled_run\<close> is what \<^verbatim>\<open>animateTo\<close> leaves there.
\<close>

definition shape_style_node :: Animatable where
  "shape_style_node =
     bare [(''shape'', JObj [(''w'', JNum 1)]), (''style'', JObj [(''o'', JNum 0)])]"

definition shape_style_target :: Dictionary where
  "shape_style_target = [(''shape'', JObj [(''w'', JNum 1)]), (''style'', JObj [(''o'', JNum 1)])]"

definition stalled_run :: AnimateRun where
  "stalled_run =
     \<lparr>run_el = \<lparr>an_props = [(''shape'', JObj [(''w'', JNum 1)]), (''style'', JObj [(''o'', JNum 0)])],
        an_animators =
          [\<lparr>a_id = 1, a_target = [''style''], a_loop = False, a_time = ArgNum 500,
              a_props = [(''o'', JNum 1)], a_keys = [''o''], a_delay = ArgNum 0,
              a_duringKey = Some ''style'', a_doneList = [SpliceFromAnimators],
              a_started = False, a_easing = ArgUndefined\<rparr>],
        an_zr = None, an_scheduled = [], an_fresh = 2\<rparr>,
     run_count = 1, run_fired = 0\<rparr>"

text \<open>
  A node at \<^verbatim>\<open>position: [10, 10]\<close>, the descriptor \<^verbatim>\<open>{position: [0, 0]}\<close>, and what
  \<^verbatim>\<open>animateFrom\<close> returns there.
\<close>

definition position_node :: Animatable where
  "position_node = bare [(''position'', JArr [JNum 10, JNum 10])]"

definition position_target :: Dictionary where
  "position_target = [(''position'', JArr [JNum 0, JNum 0])]"

definition position_run :: AnimateRun where
  "position_run =
     \<lparr>run_el = \<lparr>an_props = [(''position'', JArr [JNum 0, JNum 0])],
        an_animators =
          [\<lparr>a_id = 0, a_target = [], a_loop = False, a_time = ArgNum 500,
              a_props = [(''position'', JArr [JNum 10, JNum 10])],
              a_keys = [''position''], a_delay = ArgNum 0,
              a_duringKey = Some [],
              a_doneList = [SpliceFromAnimators, CountDown],
              a_started = True, a_easing = ArgUndefined\<rparr>],
        an_zr = None, an_scheduled = [], an_fresh = 1\<rparr>,
     run_count = 1, run_fired = 0\<rparr>"




lemma objs_modify [simp]: "objs (modify r f w) x = (if x = r then f (objs w r) else objs w x)"
  by (simp add: modify_def)

lemma modify_fields [simp]:
  "scheduler (modify r f w) = scheduler w"
  "refreshed (modify r f w) = refreshed w"
  "errlog (modify r f w) = errlog w"
  by (simp_all add: modify_def)

lemma logError_fields [simp]:
  "objs (logError m w) = objs w"
  "scheduler (logError m w) = scheduler w"
  "refreshed (logError m w) = refreshed w"
  "errlog (logError m w) = errlog w @ [m]"
  by (simp_all add: logError_def)

lemma objs_markRedraw [simp]:
  "objs (markRedraw r w) x = (if x = r then (objs w r)\<lparr>dirty := True\<rparr> else objs w x)"
  by (simp add: markRedraw_def Let_def split: option.splits)

lemma markRedraw_fields [simp]:
  "scheduler (markRedraw r w) = scheduler w"
  "errlog (markRedraw r w) = errlog w"
  by (simp_all add: markRedraw_def Let_def split: option.splits)

lemma applyStateObj_SomeD:
  assumes "applyStateObj st keep e = Some e'"
  shows "\<exists>tc p s r og ig. e' = e\<lparr>textConfig := tc, position := p, scale := s, rotation := r,
                origin := og, ignore := ig\<rparr>"
  using assms unfolding applyStateObj_def Let_def bind_eq_Some_conv
  by blast

lemma applyStateObj_fields:
  assumes "applyStateObj st keep e = Some e'"
  shows "textContent e' = textContent e" "states e' = states e" "normalState e' = normalState e"
    "currentStates e' = currentStates e" "clipPath e' = clipPath e" "zr e' = zr e"
    "animators e' = animators e" "clipTarget e' = clipTarget e" "transform e' = transform e"
    "draggable e' = draggable e" "dirty e' = dirty e"
  using applyStateObj_SomeD[OF assms] by auto

lemma saveStateToNormal_fields [simp]:
  "textContent (saveStateToNormal e) = textContent e"
  "states (saveStateToNormal e) = states e"
  "currentStates (saveStateToNormal e) = currentStates e"
  "position (saveStateToNormal e) = position e"
  "rotation (saveStateToNormal e) = rotation e"
  "scale (saveStateToNormal e) = scale e"
  "origin (saveStateToNormal e) = origin e"
  "ignore (saveStateToNormal e) = ignore e"
  "textConfig (saveStateToNormal e) = textConfig e"
  "hasState (saveStateToNormal e) = hasState e"
  by (simp_all add: saveStateToNormal_def hasState_def)

lemma readState_own [simp]: "m name = Some s \<Longrightarrow> readState m name = Some s"
  by (simp add: readState_def)

lemma readState_None_iff: "readState m name = None \<longleftrightarrow> m name = None \<and> name \<notin> set objectPrototype"
  by (simp add: readState_def split: option.splits)

lemma readState_defined: "m name \<noteq> None \<Longrightarrow> readState m name \<noteq> None"
  by (simp add: readState_None_iff)

lemma readState_reserved [simp]:
  "readState m PRESERVED_NORMAL_STATE = m PRESERVED_NORMAL_STATE"
  by (simp add: readState_def PRESERVED_NORMAL_STATE_def objectPrototype_def split: option.splits)

lemma stateNoChange_alt:
  "(Some name = (if cs = [] then None else Some (last cs)) \<and> (keep \<or> length cs = 1))
    = (cs \<noteq> [] \<and> name = last cs \<and> (keep \<or> length cs = 1))"
  by auto

lemma useState_unfold:
  "useState (Suc n) w x name keep =
    (if \<not> hasState (objs w x) \<and> name = PRESERVED_NORMAL_STATE then Some w
     else
       if stateNoChange (objs (saved x w) x) name keep then Some (saved x w)
       else if readState (states (objs (saved x w) x)) name = None \<and> name \<noteq> PRESERVED_NORMAL_STATE
         then Some (logError (notFoundMsg name) (saved x w))
       else Option.bind (applyStateObj (readState (states (objs (saved x w) x)) name) keep (objs (saved x w) x))
          (\<lambda>e2. Option.bind (labelCall n x name e2 (saved x w))
               (\<lambda>w3. Some (finish x name keep w3))))"
  unfolding useState.simps Let_def stateNoChange_alt
  unfolding stateNoChange_def pushState_def saved_def notFoundMsg_def labelCall_def finish_def
  by (rule refl)

lemma useState_0 [simp]: "useState 0 w x name keep = None"
  by (simp add: useState.simps)

lemma saved_shape [simp]:
  "textContent (objs (saved x w) y) = textContent (objs w y)"
  "states (objs (saved x w) y) = states (objs w y)"
  "currentStates (objs (saved x w) y) = currentStates (objs w y)"
  by (simp_all add: saved_def)

lemma saved_frame: "y \<noteq> x \<Longrightarrow> objs (saved x w) y = objs w y"
  by (simp add: saved_def)

lemma saved_self:
  "objs (saved x w) x = (if \<not> hasState (objs w x) then saveStateToNormal (objs w x) else objs w x)"
  by (simp add: saved_def)

lemma finish_objs [simp]:
  "objs (finish x name keep w3) y = (if y = x then (pushState name keep (objs w3 x))\<lparr>dirty := True\<rparr> else objs w3 y)"
  by (simp add: finish_def)

lemma label_ranked_cong:
  "\<forall>y. textContent (objs w' y) = textContent (objs w y) \<Longrightarrow> label_ranked rk w \<Longrightarrow> label_ranked rk w'"
  by (simp add: label_ranked_def)

text \<open>The nested call on the label: it leaves the host and the links alone.\<close>

lemma useState_frame:
  "useState n w x name keep = Some w' \<Longrightarrow> label_ranked rk w \<Longrightarrow>
     (\<forall>y. textContent (objs w' y) = textContent (objs w y) \<and> states (objs w' y) = states (objs w y))
     \<and> (\<forall>y. y \<noteq> x \<and> rk x \<le> rk y \<longrightarrow> objs w' y = objs w y)"
proof (induction n arbitrary: w x name keep w')
  case 0
  then show ?case by simp
next
  case (Suc n)
  let ?w1 = "saved x w"
  note unf = Suc.prems(1)[unfolded useState_unfold]
  consider (noop) "w' = w" | (early) "w' = ?w1" | (nf) "w' = logError (notFoundMsg name) ?w1"
    | (app) e2 w3 where "applyStateObj (readState (states (objs ?w1 x)) name) keep (objs ?w1 x) = Some e2"
        "labelCall n x name e2 ?w1 = Some w3" "w' = finish x name keep w3"
    using unf by (auto simp: bind_eq_Some_conv split: if_splits)
  then show ?case
  proof cases
    case noop
    then show ?thesis by simp
  next
    case early
    then show ?thesis by (simp add: saved_frame)
  next
    case nf
    then show ?thesis by (simp add: saved_frame)
  next
    case app
    let ?w2 = "modify x (\<lambda>_. e2) ?w1"
    have w2_shape: "\<forall>y. textContent (objs ?w2 y) = textContent (objs w y) \<and> states (objs ?w2 y) = states (objs w y)"
      using applyStateObj_fields(1,2)[OF app(1)] by simp
    have w2_frame: "\<forall>y. y \<noteq> x \<longrightarrow> objs ?w2 y = objs w y"
      by (simp add: saved_frame)
    have ranked2: "label_ranked rk ?w2"
      using label_ranked_cong[OF _ Suc.prems(2)] w2_shape by blast
    have w3_props: "(\<forall>y. textContent (objs w3 y) = textContent (objs w y) \<and> states (objs w3 y) = states (objs w y))
         \<and> (\<forall>y. y \<noteq> x \<and> rk x \<le> rk y \<longrightarrow> objs w3 y = objs w y)"
    proof (cases "textContent e2")
      case None
      with app(2) have "w3 = ?w2" by (simp add: labelCall_def)
      then show ?thesis using w2_shape w2_frame by simp
    next
      case (Some t)
      with app(2) have call: "useState n ?w2 t name False = Some w3" by (simp add: labelCall_def)
      have "textContent (objs w x) = Some t"
        using Some applyStateObj_fields(1)[OF app(1)] by simp
      then have lt: "rk t < rk x"
        using Suc.prems(2) by (simp add: label_ranked_def)
      from Suc.IH[OF call ranked2]
      have ih1: "\<forall>y. textContent (objs w3 y) = textContent (objs ?w2 y) \<and> states (objs w3 y) = states (objs ?w2 y)"
        and ih2: "\<forall>y. y \<noteq> t \<and> rk t \<le> rk y \<longrightarrow> objs w3 y = objs ?w2 y"
        by blast+
      have "\<forall>y. y \<noteq> x \<and> rk x \<le> rk y \<longrightarrow> objs w3 y = objs w y"
      proof (intro allI impI)
        fix y assume y: "y \<noteq> x \<and> rk x \<le> rk y"
        with lt have "y \<noteq> t \<and> rk t \<le> rk y" by auto
        with ih2 have "objs w3 y = objs ?w2 y" by blast
        with y w2_frame show "objs w3 y = objs w y" by simp
      qed
      with ih1 w2_shape show ?thesis by simp
    qed
    show ?thesis
      using w3_props by (simp add: app(3) pushState_def)
  qed
qed

text \<open>What the label call leaves of the host itself.\<close>

lemma labelCall_self:
  assumes "labelCall n x name e2 w1 = Some w3" and "label_ranked rk w1"
    and "textContent e2 = textContent (objs w1 x)"
  shows "objs w3 x = e2"
proof (cases "textContent e2")
  case None
  with assms(1) show ?thesis by (auto simp: labelCall_def)
next
  case (Some t)
  let ?w2 = "modify x (\<lambda>_. e2) w1"
  have "\<forall>y. textContent (objs ?w2 y) = textContent (objs w1 y)"
    using assms(3) by simp
  then have ranked2: "label_ranked rk ?w2"
    using label_ranked_cong assms(2) by blast
  have "rk t < rk x"
    using assms(2,3) Some by (simp add: label_ranked_def)
  moreover from Some assms(1) have "useState n ?w2 t name False = Some w3"
    by (simp add: labelCall_def)
  ultimately show ?thesis using useState_frame[OF _ ranked2, of n t name False w3] by auto
qed

lemma applyKey_Some [simp]: "applyKey sv restore (Some nv) cur = Some (overlay sv restore nv cur)"
  by (simp add: applyKey_def overlay_def split: option.splits)

lemma applyConfig_Some:
  "(case sv of
      Some stc \<Rightarrow>
        Option.bind (if keep then Some cur else map_option s_textConfig (Some ns))
          (\<lambda>base. Some (Some (extend (extend Map.empty base) (Some stc))))
    | None \<Rightarrow> if restore then map_option s_textConfig (Some ns) else Some cur)
   = Some (overlayConfig sv keep restore (s_textConfig ns) cur)"
  by (cases sv) (simp_all add: overlayConfig_def)

lemma applyStateObj_Some:
  assumes "normalState e = Some ns"
  shows "applyStateObj state keep e = Some (applied state keep ns e)"
  unfolding applyStateObj_def applied_def Let_def assms applyConfig_Some
  by simp

lemma snapshot_present_logError [simp]: "snapshot_present (logError m w) = snapshot_present w"
  by (simp add: snapshot_present_def)

lemma snapshot_present_saved: "snapshot_present w \<Longrightarrow> snapshot_present (saved x w)"
  by (auto simp: saved_def snapshot_present_def saveStateToNormal_def)

lemma saved_normalState:
  "snapshot_present w \<Longrightarrow> \<not> (\<not> hasState (objs w x) \<and> name = PRESERVED_NORMAL_STATE) \<Longrightarrow>
    normalState (objs (saved x w) x) \<noteq> None"
  by (auto simp: saved_def snapshot_present_def saveStateToNormal_def hasState_def)

lemma useState_total:
  "label_ranked rk w \<Longrightarrow> snapshot_present w \<Longrightarrow> rk x < n \<Longrightarrow>
     \<exists>w'. useState n w x name keep = Some w' \<and> snapshot_present w'"
proof (induction n arbitrary: w x name keep)
  case 0
  then show ?case by simp
next
  case (Suc n)
  let ?w1 = "saved x w"
  have sp1: "snapshot_present ?w1"
    by (rule snapshot_present_saved[OF Suc.prems(2)])
  show ?case
  proof (cases "\<not> hasState (objs w x) \<and> name = PRESERVED_NORMAL_STATE")
    case True
    then show ?thesis using Suc.prems(2) by (simp add: useState_unfold)
  next
    case False
    note notnoop = this
    show ?thesis
    proof (cases "stateNoChange (objs ?w1 x) name keep
          \<or> readState (states (objs ?w1 x)) name = None \<and> name \<noteq> PRESERVED_NORMAL_STATE")
      case True
      then show ?thesis using notnoop sp1 by (auto simp: useState_unfold)
    next
      case False
      obtain ns where ns: "normalState (objs ?w1 x) = Some ns"
        using saved_normalState[OF Suc.prems(2) notnoop] by blast
      define e2 where "e2 = applied (readState (states (objs w x)) name) keep ns (objs ?w1 x)"
      have e2: "applyStateObj (readState (states (objs w x)) name) keep (objs ?w1 x) = Some e2"
        unfolding e2_def by (rule applyStateObj_Some[OF ns])
      let ?w2 = "modify x (\<lambda>_. e2) ?w1"
      have sp2: "snapshot_present ?w2"
        using sp1 applyStateObj_fields(3,4)[OF e2] by (auto simp: snapshot_present_def)
      have w2_shape: "\<forall>y. textContent (objs ?w2 y) = textContent (objs w y)"
        using applyStateObj_fields(1)[OF e2] by auto
      have ranked2: "label_ranked rk ?w2"
        by (rule label_ranked_cong[OF w2_shape Suc.prems(1)])
      have ranked1: "label_ranked rk ?w1"
        by (rule label_ranked_cong[OF _ Suc.prems(1)]) simp
      have "\<exists>w3. labelCall n x name e2 ?w1 = Some w3 \<and> snapshot_present w3"
      proof (cases "textContent e2")
        case None
        then show ?thesis using sp2 by (simp add: labelCall_def)
      next
        case (Some t)
        have "textContent (objs w x) = Some t"
          using Some applyStateObj_fields(1)[OF e2] by simp
        then have "rk t < rk x"
          using Suc.prems(1) by (simp add: label_ranked_def)
        with Suc.prems(3) have "rk t < n" by simp
        from Suc.IH[OF ranked2 sp2 this] Some show ?thesis by (simp add: labelCall_def)
      qed
      then obtain w3 where w3: "labelCall n x name e2 ?w1 = Some w3" and sp3: "snapshot_present w3"
        by blast
      have fr3: "objs w3 x = e2"
        using labelCall_self[OF w3 ranked1] applyStateObj_fields(1)[OF e2] by simp
      have sp4: "snapshot_present (finish x name keep w3)"
        using sp3 fr3 ns applyStateObj_fields(3)[OF e2]
        by (auto simp: snapshot_present_def pushState_def)
      show ?thesis
        using notnoop False sp4 sp1 Suc.prems(2) by (simp add: useState_unfold e2 w3)
    qed
  qed
qed

lemma useState_applied:
  assumes "useState (Suc n) w x name keep = Some w'" and "label_ranked rk w"
    and "\<not> (\<not> hasState (objs w x) \<and> name = PRESERVED_NORMAL_STATE)"
    and "\<not> stateNoChange (objs (saved x w) x) name keep"
    and "\<not> (readState (states (objs w x)) name = None \<and> name \<noteq> PRESERVED_NORMAL_STATE)"
  shows "\<exists>e2. applyStateObj (readState (states (objs w x)) name) keep (objs (saved x w) x) = Some e2
            \<and> objs w' x = (pushState name keep e2)\<lparr>dirty := True\<rparr>"
proof -
  let ?w1 = "saved x w"
  from assms(1,3,4,5) obtain e2 w3 where
        e2: "applyStateObj (readState (states (objs w x)) name) keep (objs ?w1 x) = Some e2" and
        w3: "labelCall n x name e2 ?w1 = Some w3" and
        w': "w' = finish x name keep w3"
    by (auto simp: useState_unfold saved_shape bind_eq_Some_conv split: if_splits)
  have ranked1: "label_ranked rk ?w1"
    by (rule label_ranked_cong[OF _ assms(2)]) simp
  have fr3: "objs w3 x = e2"
    using labelCall_self[OF w3 ranked1] applyStateObj_fields(1)[OF e2] by simp
  show ?thesis using e2 fr3 by (simp add: w')
qed

lemma useState_ranked:
  "useState n w x name keep = Some w' \<Longrightarrow> label_ranked rk w \<Longrightarrow> label_ranked rk w'"
  using useState_frame[of n w x name keep w' rk] label_ranked_cong[of w' w rk] by blast

lemma useState_states:
  "useState n w x name keep = Some w' \<Longrightarrow> label_ranked rk w \<Longrightarrow> states (objs w' y) = states (objs w y)"
  using useState_frame[of n w x name keep w' rk] by blast

lemma applied_fields [simp]:
  "normalState (applied st keep ns e) = normalState e"
  "currentStates (applied st keep ns e) = currentStates e"
  "states (applied st keep ns e) = states e"
  by (simp_all add: applied_def Let_def)

lemma pushState_fields [simp]:
  "normalState (pushState name keep e) = normalState e"
  "position (pushState name keep e) = position e"
  "scale (pushState name keep e) = scale e"
  "rotation (pushState name keep e) = rotation e"
  "origin (pushState name keep e) = origin e"
  "ignore (pushState name keep e) = ignore e"
  "textConfig (pushState name keep e) = textConfig e"
  by (simp_all add: pushState_def)

text \<open>One switch to a defined non-normal state.\<close>

lemma useState_step:
  assumes ranked: "label_ranked rk w" and sp: "snapshot_present w" and fuel: "rk r < fuel"
    and name: "name \<noteq> PRESERVED_NORMAL_STATE" "states (objs w r) name \<noteq> None"
    and cs: "PRESERVED_NORMAL_STATE \<notin> set (currentStates (objs w r))"
    and ns: "normalState (objs (saved r w) r) = Some S"
  shows "\<exists>w'. useState fuel w r name keep = Some w' \<and> label_ranked rk w' \<and> snapshot_present w'
          \<and> currentStates (objs w' r) \<noteq> []
          \<and> PRESERVED_NORMAL_STATE \<notin> set (currentStates (objs w' r))
          \<and> normalState (objs w' r) = Some S
          \<and> states (objs w' r) = states (objs w r)"
proof -
  obtain w' where w': "useState fuel w r name keep = Some w'" and sp': "snapshot_present w'"
    using useState_total[OF ranked sp fuel] by blast
  obtain n where n: "fuel = Suc n" using fuel by (cases fuel) auto
  have r': "label_ranked rk w'" by (rule useState_ranked[OF w' ranked])
  have st': "states (objs w' r) = states (objs w r)" by (rule useState_states[OF w' ranked])
  have "currentStates (objs w' r) \<noteq> [] \<and> PRESERVED_NORMAL_STATE \<notin> set (currentStates (objs w' r))
         \<and> normalState (objs w' r) = Some S"
  proof (cases "stateNoChange (objs (saved r w) r) name keep")
    case True
    then have "w' = saved r w" using w' name by (simp add: n useState_unfold)
    then show ?thesis using True cs ns by (simp add: stateNoChange_def)
  next
    case False
    from useState_applied[OF w'[unfolded n] ranked _ False] name
    obtain e2 where e2: "applyStateObj (readState (states (objs w r)) name) keep (objs (saved r w) r) = Some e2"
      and o: "objs w' r = (pushState name keep e2)\<lparr>dirty := True\<rparr>"
      by auto
    have "normalState e2 = Some S" "currentStates e2 = currentStates (objs w r)"
      using applyStateObj_fields(3,4)[OF e2] ns by simp_all
    then show ?thesis using o name(1) cs by (simp add: pushState_def)
  qed
  then show ?thesis using w' sp' r' st' by blast
qed

lemma useState_calls_active:
  assumes "label_ranked rk w" and "snapshot_present w" and "rk r < fuel"
    and "currentStates (objs w r) \<noteq> []"
    and "PRESERVED_NORMAL_STATE \<notin> set (currentStates (objs w r))"
    and "normalState (objs w r) = Some S"
    and "\<forall>c \<in> set calls. fst c \<noteq> PRESERVED_NORMAL_STATE \<and> states (objs w r) (fst c) \<noteq> None"
  shows "\<exists>w'. useState_calls fuel r calls w = Some w' \<and> label_ranked rk w' \<and> snapshot_present w'
          \<and> currentStates (objs w' r) \<noteq> []
          \<and> PRESERVED_NORMAL_STATE \<notin> set (currentStates (objs w' r))
          \<and> normalState (objs w' r) = Some S
          \<and> states (objs w' r) = states (objs w r)"
  using assms
proof (induction calls arbitrary: w)
  case Nil
  then show ?case by simp
next
  case (Cons c calls)
  have ns: "normalState (objs (saved r w) r) = Some S"
    using Cons.prems(4,6) by (simp add: saved_def hasState_def)
  from useState_step[OF Cons.prems(1,2,3) _ _ Cons.prems(5) ns, of "fst c" "snd c"] Cons.prems(7)
  obtain w1 where w1: "useState fuel w r (fst c) (snd c) = Some w1" "label_ranked rk w1" "snapshot_present w1"
          "currentStates (objs w1 r) \<noteq> []"
          "PRESERVED_NORMAL_STATE \<notin> set (currentStates (objs w1 r))"
          "normalState (objs w1 r) = Some S"
          "states (objs w1 r) = states (objs w r)"
    by auto
  have "\<forall>c \<in> set calls. fst c \<noteq> PRESERVED_NORMAL_STATE \<and> states (objs w1 r) (fst c) \<noteq> None"
    using Cons.prems(7) w1(7) by simp
  from Cons.IH[OF w1(2,3) Cons.prems(3) w1(4,5,6) this]
  show ?case using w1(1,7) by auto
qed

text \<open>The return to normal from an active stack.\<close>

lemma useState_to_normal:
  assumes ranked: "label_ranked rk w" and sp: "snapshot_present w" and fuel: "rk r < fuel"
    and cs: "currentStates (objs w r) \<noteq> []" "PRESERVED_NORMAL_STATE \<notin> set (currentStates (objs w r))"
    and ns: "normalState (objs w r) = Some S"
    and reserved: "states (objs w r) PRESERVED_NORMAL_STATE = None"
  shows "\<exists>w'. useState fuel w r PRESERVED_NORMAL_STATE keep = Some w'
          \<and> position (objs w' r) = s_position S \<and> scale (objs w' r) = s_scale S
          \<and> rotation (objs w' r) = s_rotation S \<and> origin (objs w' r) = s_origin S
          \<and> ignore (objs w' r) = s_ignore S \<and> textConfig (objs w' r) = s_textConfig S
          \<and> currentStates (objs w' r) = []"
proof -
  obtain w' where w': "useState fuel w r PRESERVED_NORMAL_STATE keep = Some w'"
    using useState_total[OF ranked sp fuel] by blast
  obtain n where n: "fuel = Suc n" using fuel by (cases fuel) auto
  have sv: "saved r w = w" using cs(1) by (simp add: saved_def hasState_def)
  have nc: "\<not> stateNoChange (objs (saved r w) r) PRESERVED_NORMAL_STATE keep"
  proof
    assume "stateNoChange (objs (saved r w) r) PRESERVED_NORMAL_STATE keep"
    then have "PRESERVED_NORMAL_STATE = last (currentStates (objs w r))"
      by (simp add: stateNoChange_def sv)
    then have "PRESERVED_NORMAL_STATE \<in> set (currentStates (objs w r))"
      using last_in_set[OF cs(1)] by simp
    with cs(2) show False by simp
  qed
  from useState_applied[OF w'[unfolded n] ranked _ nc] cs(1)
  obtain e2 where e2: "applyStateObj (readState (states (objs w r)) PRESERVED_NORMAL_STATE) keep (objs w r) = Some e2"
      and o: "objs w' r = (pushState PRESERVED_NORMAL_STATE keep e2)\<lparr>dirty := True\<rparr>"
    by (auto simp: sv hasState_def)
  have "e2 = applied None keep S (objs w r)"
    using e2 applyStateObj_Some[OF ns, of None keep] by (simp add: reserved)
  then show ?thesis using w' o
    by (simp add: applied_def overlay_def overlayConfig_def emptyState_def pushState_def)
qed

lemma useState_calls_append:
  "useState_calls fuel r (xs @ ys) w =
     (case useState_calls fuel r xs w of None \<Rightarrow> None | Some w' \<Rightarrow> useState_calls fuel r ys w')"
  by (induction xs arbitrary: w) (auto split: option.splits)

text \<open>
  Claim C1 (state round-trip), as amended. A node with no active state whose state map
  has no entry under the reserved name is switched through any sequence of defined
  non-normal states (each call layered or not) and then back with
  \<^verbatim>\<open>useState(PRESERVED_NORMAL_STATE)\<close>. The calls return, and position, scale,
  rotation, ignore and the label configuration are what they were before the first
  switch. The origin is what it was when it was set; an absent origin reads
  \<^verbatim>\<open>[0, 0]\<close> once a switch has been made, the default \<^verbatim>\<open>saveStateToNormal\<close>
  puts into the snapshot.
\<close>

theorem state_round_trip:
  assumes "label_ranked rk w" and "snapshot_present w" and "rk r < fuel"
    and "currentStates (objs w r) = []"
    and "states (objs w r) PRESERVED_NORMAL_STATE = None"
    and "\<forall>c \<in> set calls. fst c \<noteq> PRESERVED_NORMAL_STATE \<and> states (objs w r) (fst c) \<noteq> None"
  shows "\<exists>w'. useState_calls fuel r (calls @ [(PRESERVED_NORMAL_STATE, False)]) w = Some w'
          \<and> position (objs w' r) = position (objs w r)
          \<and> scale (objs w' r) = scale (objs w r)
          \<and> rotation (objs w' r) = rotation (objs w r)
          \<and> ignore (objs w' r) = ignore (objs w r)
          \<and> textConfig (objs w' r) = textConfig (objs w r)
          \<and> origin (objs w' r) =
               (case origin (objs w r) of
                  Some v \<Rightarrow> Some v
                | None \<Rightarrow> if calls = [] then None else Some [0, 0])"
proof (cases calls)
  case Nil
  obtain n where n: "fuel = Suc n" using assms(3) by (cases fuel) auto
  have "useState fuel w r PRESERVED_NORMAL_STATE False = Some w"
    using assms(4) by (simp add: n useState_unfold hasState_def)
  then show ?thesis using Nil by (simp split: option.split)
next
  case (Cons c cs)
  define S where "S = \<lparr>s_position = position (objs w r), s_rotation = rotation (objs w r),
         s_scale = scale (objs w r),
         s_origin = (case origin (objs w r) of None \<Rightarrow> Some [0, 0] | Some v \<Rightarrow> Some v),
         s_textConfig = textConfig (objs w r), s_ignore = ignore (objs w r)\<rparr>"
  have ns: "normalState (objs (saved r w) r) = Some S"
    using assms(4) by (simp add: saved_def hasState_def saveStateToNormal_def S_def)
  have c: "fst c \<noteq> PRESERVED_NORMAL_STATE" "states (objs w r) (fst c) \<noteq> None"
    and cs: "\<forall>c \<in> set cs. fst c \<noteq> PRESERVED_NORMAL_STATE \<and> states (objs w r) (fst c) \<noteq> None"
    using assms(6) Cons by auto
  from useState_step[OF assms(1,2,3) c _ ns, of "snd c"] assms(4)
  obtain w1 where w1: "useState fuel w r (fst c) (snd c) = Some w1" "label_ranked rk w1" "snapshot_present w1"
          "currentStates (objs w1 r) \<noteq> []"
          "PRESERVED_NORMAL_STATE \<notin> set (currentStates (objs w1 r))"
          "normalState (objs w1 r) = Some S"
          "states (objs w1 r) = states (objs w r)"
    by auto
  have cs1: "\<forall>c \<in> set cs. fst c \<noteq> PRESERVED_NORMAL_STATE \<and> states (objs w1 r) (fst c) \<noteq> None"
    using cs w1(7) by simp
  from useState_calls_active[OF w1(2,3) assms(3) w1(4,5,6) cs1]
  obtain w2 where w2: "useState_calls fuel r cs w1 = Some w2" "label_ranked rk w2" "snapshot_present w2"
          "currentStates (objs w2 r) \<noteq> []"
          "PRESERVED_NORMAL_STATE \<notin> set (currentStates (objs w2 r))"
          "normalState (objs w2 r) = Some S"
          "states (objs w2 r) = states (objs w1 r)"
    by auto
  have res: "states (objs w2 r) PRESERVED_NORMAL_STATE = None"
    using assms(5) w1(7) w2(7) by simp
  from useState_to_normal[OF w2(2,3) assms(3) w2(4,5,6) res, of False]
  obtain w3 where w3: "useState fuel w2 r PRESERVED_NORMAL_STATE False = Some w3"
          "position (objs w3 r) = s_position S" "scale (objs w3 r) = s_scale S"
          "rotation (objs w3 r) = s_rotation S" "origin (objs w3 r) = s_origin S"
          "ignore (objs w3 r) = s_ignore S" "textConfig (objs w3 r) = s_textConfig S"
    by auto
  have "useState_calls fuel r (calls @ [(PRESERVED_NORMAL_STATE, False)]) w = Some w3"
    using Cons w1(1) w2(1) w3(1) by (simp add: useState_calls_append)
  then show ?thesis using w3 Cons by (simp add: S_def split: option.split)
qed

lemma fresh_ranked: "label_ranked (\<lambda>_. 0) fresh_world"
  by (simp add: label_ranked_def fresh_world_def fresh_element_def)

lemma hover_ranked: "label_ranked (\<lambda>_. 0) hover_world"
  by (simp add: label_ranked_def hover_world_def fresh_world_def fresh_element_def)

lemma hover_present: "snapshot_present hover_world"
  by (simp add: snapshot_present_def hover_world_def fresh_world_def fresh_element_def)

text \<open>The theorem at a node with one state, switched to it and back.\<close>

theorem state_round_trip_witness:
  "\<exists>w'. useState_calls (Suc 0) 0 ([(''hover'', False)] @ [(PRESERVED_NORMAL_STATE, False)]) hover_world = Some w'
          \<and> position (objs w' 0) = position (objs hover_world 0)
          \<and> scale (objs w' 0) = scale (objs hover_world 0)
          \<and> rotation (objs w' 0) = rotation (objs hover_world 0)
          \<and> ignore (objs w' 0) = ignore (objs hover_world 0)
          \<and> textConfig (objs w' 0) = textConfig (objs hover_world 0)
          \<and> origin (objs w' 0) = Some [0, 0]"
  using state_round_trip[of "\<lambda>_. 0" hover_world 0 "Suc 0" "[(''hover'', False)]", OF hover_ranked hover_present]
  by (simp add: hover_world_def fresh_world_def fresh_element_def PRESERVED_NORMAL_STATE_def)

text \<open>
  Claim C1 as stated fails at a node without origin: after the round trip the origin is
  \<^verbatim>\<open>[0, 0]\<close>, not absent.
\<close>

theorem state_round_trip_counterexample:
  "origin (objs hover_world 0) = None \<and>
   map_option origin (node_after
     (useState_calls (Suc 0) 0 [(''hover'', False), (PRESERVED_NORMAL_STATE, False)] hover_world) 0)
     = Some (Some [0, 0])"
  by (simp add: node_after_def hover_world_def fresh_world_def fresh_element_def
      PRESERVED_NORMAL_STATE_def useState.simps hasState_def saveStateToNormal_def Let_def
      emptyState_def applyStateObj_def applyKey_def extend_def markRedraw_def logError_def modify_def
      readState_def objectPrototype_def)

lemma useState_self_snapshot:
  assumes "useState fuel w r name keep = Some w'" and "label_ranked rk w"
  shows "normalState (objs w' r) =
           (if \<not> hasState (objs w r) \<and> name = PRESERVED_NORMAL_STATE
            then normalState (objs w r) else normalState (objs (saved r w) r))"
proof (cases fuel)
  case 0
  with assms(1) show ?thesis by simp
next
  case (Suc n)
  let ?w1 = "saved r w"
  note unf = assms(1)[unfolded Suc useState_unfold]
  show ?thesis
  proof (cases "\<not> hasState (objs w r) \<and> name = PRESERVED_NORMAL_STATE")
    case True
    with unf show ?thesis by simp
  next
    case False
    with unf consider (early) "w' = ?w1" | (nf) "w' = logError (notFoundMsg name) ?w1"
      | (app) e2 w3 where "applyStateObj (readState (states (objs ?w1 r)) name) keep (objs ?w1 r) = Some e2"
        "labelCall n r name e2 ?w1 = Some w3" "w' = finish r name keep w3"
      by (auto simp: bind_eq_Some_conv split: if_splits)
    then have "normalState (objs w' r) = normalState (objs ?w1 r)"
    proof cases
      case early
      then show ?thesis by simp
    next
      case nf
      then show ?thesis by simp
    next
      case app
      have ranked1: "label_ranked rk ?w1"
        by (rule label_ranked_cong[OF _ assms(2)]) simp
      have "objs w3 r = e2"
        using labelCall_self[OF app(2) ranked1] applyStateObj_fields(1)[OF app(1)] by simp
      then show ?thesis
        using applyStateObj_fields(3)[OF app(1)] by (simp add: app(3))
    qed
    with False show ?thesis by auto
  qed
qed

text \<open>
  Claim C7 (capture of the normal snapshot), as amended. At every \<^verbatim>\<open>useState\<close> call, and so
  at every step of \<^verbatim>\<open>useStates\<close> and at \<^verbatim>\<open>clearStates\<close>, the snapshot is rewritten
  exactly when a non-normal state is requested while no state is active: it is taken anew
  on each departure from normal, before the requested state is applied, and a call made
  while any state is active leaves it as it is.
\<close>

theorem snapshot_capture:
  assumes "label_ranked rk w" and "snapshot_present w" and "rk r < fuel"
  shows "\<exists>w'. useState fuel w r name keep = Some w' \<and>
           normalState (objs w' r) =
             (if currentStates (objs w r) = [] \<and> name \<noteq> PRESERVED_NORMAL_STATE
              then normalState (saveStateToNormal (objs w r))
              else normalState (objs w r))"
proof -
  obtain w' where w': "useState fuel w r name keep = Some w'"
    using useState_total[OF assms] by blast
  show ?thesis
    using w' useState_self_snapshot[OF w' assms(1)]
    by (auto simp: saved_def hasState_def)
qed

text \<open>
  Claim C6 (unknown state), as amended. \<^verbatim>\<open>useState(name)\<close> with a name that has no entry
  in the node's state map, is not one of the names every object inherits from
  \<^verbatim>\<open>Object.prototype\<close>, is not the reserved one and is not among the node's active states
  returns with the error reported and with the store as it was, but for the node's private
  snapshot: when no state is active, \<^verbatim>\<open>saveStateToNormal\<close> has run before the lookup.
  The active states, every primary property, the label configuration, every other field and
  every other node are unchanged.
\<close>

theorem useState_unknown_state:
  assumes "states (objs w r) name = None" and "name \<notin> set objectPrototype"
    and "name \<noteq> PRESERVED_NORMAL_STATE"
    and "name \<notin> set (currentStates (objs w r))"
  shows "useState (Suc fuel) w r name keep =
           Some (w\<lparr>objs := (objs w)(r := (objs w r)\<lparr>normalState :=
                      if currentStates (objs w r) = []
                      then normalState (saveStateToNormal (objs w r))
                      else normalState (objs w r)\<rparr>),
                   errlog := errlog w @ [''State '' @ name @ '' not exists.'']\<rparr>)"
proof -
  have nc: "\<not> stateNoChange (objs (saved r w) r) name keep"
  proof
    assume "stateNoChange (objs (saved r w) r) name keep"
    then have "currentStates (objs w r) \<noteq> []" "name = last (currentStates (objs w r))"
      by (simp_all add: stateNoChange_def)
    then have "name \<in> set (currentStates (objs w r))" by simp
    with assms(4) show False by simp
  qed
  have nf: "readState (states (objs w r)) name = None"
    using assms(1,2) by (simp add: readState_None_iff)
  have "useState (Suc fuel) w r name keep = Some (logError (notFoundMsg name) (saved r w))"
    using nf assms(3) nc by (simp add: useState_unfold)
  also have "logError (notFoundMsg name) (saved r w) =
       w\<lparr>objs := (objs w)(r := (objs w r)\<lparr>normalState :=
                      if currentStates (objs w r) = []
                      then normalState (saveStateToNormal (objs w r))
                      else normalState (objs w r)\<rparr>),
                   errlog := errlog w @ [''State '' @ name @ '' not exists.'']\<rparr>"
    by (simp add: logError_def saved_def modify_def hasState_def notFoundMsg_def saveStateToNormal_def)
  finally show ?thesis .
qed

lemma precedence_overlay:
  "overlay vb False nv (overlay va True n cur) = precedence vb va n"
  by (simp add: overlay_def precedence_def split: option.splits)

lemma precedence_same: "overlay va True n cur = precedence va va n"
  by (simp add: overlay_def precedence_def split: option.splits)

lemma configKey_extend:
  "configKey (Some (extend (extend Map.empty base) (Some s))) k
     = (case s k of Some v \<Rightarrow> Some v | None \<Rightarrow> configKey base k)"
  by (simp add: configKey_def extend_def map_add_def split: option.splits)

lemma configKey_layers:
  "configKey (overlayConfig cb True False nv (overlayConfig ca False True n cur)) k
     = precedence (configKey cb k) (configKey ca k) (configKey n k)"
  by (auto simp: overlayConfig_def configKey_def extend_def map_add_def precedence_def
        split: option.splits)

lemma configKey_same:
  "configKey (overlayConfig ca False True n cur) k
     = precedence (configKey ca k) (configKey ca k) (configKey n k)"
  by (auto simp: overlayConfig_def configKey_def extend_def map_add_def precedence_def
        split: option.splits)

lemma precedence_keep: "overlay vb False nv cur = precedence vb None cur"
  by (simp add: overlay_def precedence_def split: option.splits)

lemma configKey_keep:
  "configKey (overlayConfig cb True False nv cur) k = precedence (configKey cb k) None (configKey cur k)"
  by (auto simp: overlayConfig_def configKey_def extend_def map_add_def precedence_def
        split: option.splits)

lemma stateNoChange_single:
  "stateNoChange e a False \<longleftrightarrow> currentStates e = [a]"
  by (cases "currentStates e") (auto simp: stateNoChange_def)

text \<open>
  Claim C2 (layered override precedence), as amended. On a node with states \<open>a\<close> and
  \<open>b\<close> defined, \<^verbatim>\<open>useStates([a, b])\<close> returns, and every primary property is \<open>b\<close>'s value
  where \<open>b\<close> defines it, else \<open>a\<close>'s where \<open>a\<close> defines it, else the value of the
  normal baseline: the snapshot the first call captures when no state is active (for the
  origin \<^verbatim>\<open>[0, 0]\<close> when the node has none), the stored snapshot otherwise. The label
  configuration follows the same order key by key. The one exception is a node whose only
  active state is \<open>a\<close>: the first call then returns at once, so the keys \<open>b\<close> does not
  define keep the values the node holds, and with \<open>b = a\<close> every key does.
\<close>

theorem layered_override_precedence:
  assumes ranked: "label_ranked rk w" and sp: "snapshot_present w" and fuel: "rk r < fuel"
    and a: "states (objs w r) a = Some sa" "a \<noteq> PRESERVED_NORMAL_STATE"
    and b: "states (objs w r) b = Some sb"
  shows "\<exists>w' S. useStates fuel w r [a, b] = Some w' \<and> baseline (objs w r) = Some S
          \<and> position (objs w' r) = layered (currentStates (objs w r)) a b
                (s_position sb) (s_position sa) (s_position S) (position (objs w r))
          \<and> scale (objs w' r) = layered (currentStates (objs w r)) a b
                (s_scale sb) (s_scale sa) (s_scale S) (scale (objs w r))
          \<and> rotation (objs w' r) = layered (currentStates (objs w r)) a b
                (s_rotation sb) (s_rotation sa) (s_rotation S) (rotation (objs w r))
          \<and> origin (objs w' r) = layered (currentStates (objs w r)) a b
                (s_origin sb) (s_origin sa) (s_origin S) (origin (objs w r))
          \<and> ignore (objs w' r) = layered (currentStates (objs w r)) a b
                (s_ignore sb) (s_ignore sa) (s_ignore S) (ignore (objs w r))
          \<and> (\<forall>k. configKey (textConfig (objs w' r)) k = layered (currentStates (objs w r)) a b
                (configKey (s_textConfig sb) k) (configKey (s_textConfig sa) k)
                (configKey (s_textConfig S) k) (configKey (textConfig (objs w r)) k))"
proof -
  obtain n where n: "fuel = Suc n" using fuel by (cases fuel) auto
  have notnoop: "\<not> (\<not> hasState (objs w r) \<and> a = PRESERVED_NORMAL_STATE)" using a(2) by simp
  obtain S where ns0: "normalState (objs (saved r w) r) = Some S"
    using saved_normalState[OF sp notnoop] by blast
  have bl: "baseline (objs w r) = Some S"
    using ns0 by (simp add: baseline_def saved_def hasState_def split: if_splits)
  show ?thesis
  proof (cases "currentStates (objs w r) = [a]")
    case True
    have hs: "hasState (objs w r)" using True by (simp add: hasState_def)
    have sv: "saved r w = w" using hs by (simp add: saved_def)
    have ns: "normalState (objs w r) = Some S" using ns0 by (simp add: sv)
    have "stateNoChange (objs (saved r w) r) a False"
      using True by (simp add: stateNoChange_single sv)
    then have w1: "useState fuel w r a False = Some w"
      using hs by (simp add: n useState_unfold sv)
    show ?thesis
    proof (cases "b = a")
      case same: True
      have "stateNoChange (objs (saved r w) r) b True"
        using True same by (simp add: stateNoChange_def sv)
      then have "useState fuel w r b True = Some w"
        using hs by (simp add: n useState_unfold sv)
      with w1 have "useStates fuel w r [a, b] = Some w" by (simp add: useStates_def)
      then show ?thesis using bl True same by (simp add: layered_def)
    next
      case diff: False
      obtain w2 where w2: "useState fuel w r b True = Some w2"
        using useState_total[OF ranked sp fuel] by blast
      have nc2: "\<not> stateNoChange (objs (saved r w) r) b True"
        using True diff by (simp add: stateNoChange_def sv)
      from useState_applied[OF w2[unfolded n] ranked _ nc2] hs b
      obtain e3 where e3: "applyStateObj (Some sb) True (objs w r) = Some e3"
        and o2: "objs w2 r = (pushState b True e3)\<lparr>dirty := True\<rparr>"
        by (auto simp: sv)
      have e3': "e3 = applied (Some sb) True S (objs w r)"
        using e3 applyStateObj_Some[OF ns, of "Some sb" True] by simp
      have run: "useStates fuel w r [a, b] = Some w2"
        using w1 w2 by (simp add: useStates_def)
      show ?thesis
        using run bl True diff o2
        by (simp add: e3' applied_def layered_def precedence_keep configKey_keep)
    qed
  next
    case False
    obtain w1 where w1: "useState fuel w r a False = Some w1" and sp1: "snapshot_present w1"
      using useState_total[OF ranked sp fuel] by blast
    have r1: "label_ranked rk w1" by (rule useState_ranked[OF w1 ranked])
    have st1: "states (objs w1 r) = states (objs w r)" by (rule useState_states[OF w1 ranked])
    have nc: "\<not> stateNoChange (objs (saved r w) r) a False"
      using False by (simp add: stateNoChange_single)
    from useState_applied[OF w1[unfolded n] ranked notnoop nc] a
    obtain e2 where e2: "applyStateObj (Some sa) False (objs (saved r w) r) = Some e2"
        and o1: "objs w1 r = (pushState a False e2)\<lparr>dirty := True\<rparr>"
      by auto
    have e2': "e2 = applied (Some sa) False S (objs (saved r w) r)"
      using e2 applyStateObj_Some[OF ns0, of "Some sa" False] by simp
    have cs1: "currentStates (objs w1 r) = [a]" and ns1: "normalState (objs w1 r) = Some S"
      using o1 a(2) ns0 by (simp_all add: e2' pushState_def)
    have hs1: "hasState (objs w1 r)" using cs1 by (simp add: hasState_def)
    have sv1: "saved r w1 = w1" using hs1 by (simp add: saved_def)
    obtain w2 where w2: "useState fuel w1 r b True = Some w2"
      using useState_total[OF r1 sp1 fuel] by blast
    have run: "useStates fuel w r [a, b] = Some w2"
      using w1 w2 by (simp add: useStates_def)
    have props: "position (objs w2 r) = precedence (s_position sb) (s_position sa) (s_position S)
            \<and> scale (objs w2 r) = precedence (s_scale sb) (s_scale sa) (s_scale S)
            \<and> rotation (objs w2 r) = precedence (s_rotation sb) (s_rotation sa) (s_rotation S)
            \<and> origin (objs w2 r) = precedence (s_origin sb) (s_origin sa) (s_origin S)
            \<and> ignore (objs w2 r) = precedence (s_ignore sb) (s_ignore sa) (s_ignore S)
            \<and> (\<forall>k. configKey (textConfig (objs w2 r)) k =
                   precedence (configKey (s_textConfig sb) k) (configKey (s_textConfig sa) k)
                     (configKey (s_textConfig S) k))"
    proof (cases "b = a")
      case True
      then have "stateNoChange (objs (saved r w1) r) b True"
        using cs1 by (simp add: stateNoChange_def sv1)
      then have "w2 = w1"
        using w2 hs1 by (simp add: n useState_unfold sv1)
      moreover have "sb = sa" using a(1) b True by simp
      ultimately show ?thesis
        using o1 by (simp add: e2' applied_def precedence_same configKey_same)
    next
      case diff: False
      then have nc2: "\<not> stateNoChange (objs (saved r w1) r) b True"
        using cs1 by (simp add: stateNoChange_def sv1)
      from useState_applied[OF w2[unfolded n] r1 _ nc2] hs1 b st1
      obtain e3 where e3: "applyStateObj (Some sb) True (objs w1 r) = Some e3"
        and o2: "objs w2 r = (pushState b True e3)\<lparr>dirty := True\<rparr>"
        by (auto simp: sv1)
      have "e3 = applied (Some sb) True S (objs w1 r)"
        using e3 applyStateObj_Some[OF ns1, of "Some sb" True] by simp
      then show ?thesis
        using o2 o1 by (simp add: e2' applied_def precedence_overlay configKey_layers)
    qed
    show ?thesis
      using run props bl False by (simp add: layered_def)
  qed
qed

lemma layers_ranked: "label_ranked (\<lambda>_. 0) layers_world"
  by (simp add: label_ranked_def layers_world_def fresh_world_def fresh_element_def)

lemma layers_present: "snapshot_present layers_world"
  by (simp add: snapshot_present_def layers_world_def fresh_world_def fresh_element_def)

text \<open>The theorem at a node with two states: the second wins the rotation, the first the scale.\<close>

theorem layered_override_precedence_witness:
  "\<exists>w'. useStates (Suc 0) layers_world 0 [''emphasis'', ''select''] = Some w'
      \<and> position (objs w' 0) = Some [0, 0]
      \<and> scale (objs w' 0) = Some [2, 2]
      \<and> rotation (objs w' 0) = Some 3
      \<and> origin (objs w' 0) = Some [0, 0]
      \<and> ignore (objs w' 0) = Some False
      \<and> (\<forall>k. configKey (textConfig (objs w' 0)) k = None)"
  using layered_override_precedence[of "\<lambda>_. 0" layers_world 0 "Suc 0" "''emphasis''"
      "emptyState\<lparr>s_rotation := Some 1, s_scale := Some [2, 2]\<rparr>" "''select''"
      "emptyState\<lparr>s_rotation := Some 3\<rparr>", OF layers_ranked layers_present]
  by (auto simp: layers_world_def fresh_world_def fresh_element_def PRESERVED_NORMAL_STATE_def
      precedence_def emptyState_def baseline_def layered_def saveStateToNormal_def configKey_def)

text \<open>
  Claim C2 as stated fails on a node that was switched to \<^verbatim>\<open>emphasis\<close>, which sets the
  scale to \<^verbatim>\<open>[2, 2]\<close>, and was given the scale \<^verbatim>\<open>[5, 5]\<close> afterwards: after
  \<^verbatim>\<open>useStates(["emphasis", "select"])\<close> the scale, which \<^verbatim>\<open>select\<close> does not define, is
  \<^verbatim>\<open>[5, 5]\<close> and not the value of \<^verbatim>\<open>emphasis\<close>.
\<close>

theorem layered_override_precedence_counterexample:
  "useState (Suc 0) layers_world 0 ''emphasis'' False = Some emphasis_world
   \<and> map_option s_scale (states (objs resized_world 0) ''emphasis'') = Some (Some [2, 2])
   \<and> map_option s_scale (states (objs resized_world 0) ''select'') = Some None
   \<and> map_option scale (node_after (useStates (Suc 0) resized_world 0 [''emphasis'', ''select'']) 0)
       = Some (Some [5, 5])"
  by (simp add: node_after_def resized_world_def emphasis_world_def layers_world_def fresh_world_def
      fresh_element_def PRESERVED_NORMAL_STATE_def useStates_def useState.simps hasState_def
      saveStateToNormal_def Let_def emptyState_def applyStateObj_def applyKey_def extend_def
      markRedraw_def logError_def modify_def readState_def objectPrototype_def)

text \<open>The theorem at an undefined name on a node in its normal state.\<close>

theorem useState_unknown_state_witness:
  "useState (Suc 0) hover_world 0 ''press'' False =
     Some (logError ''State press not exists.'' (modify 0 saveStateToNormal hover_world))"
  using useState_unknown_state[of hover_world 0 "''press''" 0 False]
  by (simp add: hover_world_def fresh_world_def fresh_element_def PRESERVED_NORMAL_STATE_def
      objectPrototype_def logError_def modify_def saveStateToNormal_def)

text \<open>
  Claim C6 as stated fails there: the failed call has written the snapshot, which the node
  did not have before. And at the name \<^verbatim>\<open>constructor\<close>, which is no state of the node, no
  error is reported: the name is found in \<^verbatim>\<open>Object.prototype\<close> and becomes the active
  state.
\<close>

theorem useState_unknown_state_counterexample:
  "normalState (objs hover_world 0) = None \<and>
   map_option normalState (node_after (useState (Suc 0) hover_world 0 ''press'' False) 0) =
     Some (Some \<lparr>s_position = Some [0, 0], s_rotation = Some 0, s_scale = Some [1, 1],
          s_origin = Some [0, 0], s_textConfig = None, s_ignore = Some False\<rparr>)
   \<and> states (objs hover_world 0) ''constructor'' = None
   \<and> map_option errlog (useState (Suc 0) hover_world 0 ''constructor'' False) = Some []
   \<and> map_option currentStates (node_after (useState (Suc 0) hover_world 0 ''constructor'' False) 0)
       = Some [''constructor'']"
  by (simp add: node_after_def hover_world_def fresh_world_def fresh_element_def
      PRESERVED_NORMAL_STATE_def useState.simps hasState_def saveStateToNormal_def Let_def
      logError_def modify_def readState_def objectPrototype_def emptyState_def applyStateObj_def
      applyKey_def extend_def markRedraw_def)

text \<open>The theorem at the first switch of a node.\<close>

theorem snapshot_capture_witness:
  "\<exists>w'. useState (Suc 0) hover_world 0 ''hover'' False = Some w' \<and>
     normalState (objs w' 0) =
       Some \<lparr>s_position = Some [0, 0], s_rotation = Some 0, s_scale = Some [1, 1],
          s_origin = Some [0, 0], s_textConfig = None, s_ignore = Some False\<rparr>"
  using snapshot_capture[of "\<lambda>_. 0" hover_world 0 "Suc 0" "''hover''" False, OF hover_ranked hover_present]
  by (simp add: hover_world_def fresh_world_def fresh_element_def PRESERVED_NORMAL_STATE_def
      saveStateToNormal_def)

text \<open>
  Claim C7 as stated fails on a node that went to a state and back with rotation 0 and was
  rotated to 2 afterwards: its snapshot, captured once already, is captured again at the
  next switch and now holds rotation 2.
\<close>

theorem snapshot_capture_counterexample:
  "useState_calls (Suc 0) 0 [(''hover'', False), (PRESERVED_NORMAL_STATE, False)] hover_world
     = Some returned_world
   \<and> map_option s_rotation (normalState (objs returned_world 0)) = Some (Some 0)
   \<and> map_option (map_option s_rotation)
       (map_option normalState (node_after (useState (Suc 0) rotated_world 0 ''hover'' False) 0))
     = Some (Some (Some 2))"
  by (simp add: node_after_def rotated_world_def returned_world_def hover_world_def fresh_world_def
      fresh_element_def PRESERVED_NORMAL_STATE_def useState.simps hasState_def saveStateToNormal_def
      Let_def emptyState_def applyStateObj_def applyKey_def extend_def markRedraw_def logError_def
      modify_def readState_def objectPrototype_def)

lemma zr_only_refl [simp]: "zr_only w w"
  by (simp add: zr_only_def)

lemma zr_only_trans: "zr_only w w1 \<Longrightarrow> zr_only w1 w2 \<Longrightarrow> zr_only w w2"
  unfolding zr_only_def
  by (metis (no_types, lifting) Element.surjective Element.update_convs(9))

lemma zr_only_fields:
  assumes "zr_only w w'"
  shows "clipPath (objs w' y) = clipPath (objs w y)" "textContent (objs w' y) = textContent (objs w y)"
    "animators (objs w' y) = animators (objs w y)" "clipTarget (objs w' y) = clipTarget (objs w y)"
    "refreshed w' = refreshed w" "errlog w' = errlog w"
proof -
  have "objs w' y = (objs w y)\<lparr>zr := zr (objs w' y)\<rparr>" using assms by (simp add: zr_only_def)
  then have e: "\<exists>v. objs w' y = (objs w y)\<lparr>zr := v\<rparr>" by blast
  from e show "clipPath (objs w' y) = clipPath (objs w y)" by auto
  from e show "textContent (objs w' y) = textContent (objs w y)" by auto
  from e show "animators (objs w' y) = animators (objs w y)" by auto
  from e show "clipTarget (objs w' y) = clipTarget (objs w y)" by auto
  show "refreshed w' = refreshed w" "errlog w' = errlog w" using assms by (simp_all add: zr_only_def)
qed

lemma component_ranked_zr_only: "zr_only w w' \<Longrightarrow> component_ranked rk w \<Longrightarrow> component_ranked rk w'"
  by (simp add: component_ranked_def zr_only_fields)

lemma fold_animationAddAnimator [simp]:
  "objs (fold (animationAddAnimator z) as w) = objs w"
  "refreshed (fold (animationAddAnimator z) as w) = refreshed w"
  "errlog (fold (animationAddAnimator z) as w) = errlog w"
  "scheduler (fold (animationAddAnimator z) as w) = (scheduler w)(z := scheduler w z \<union> set as)"
  by (induction as arbitrary: w) (auto simp: animationAddAnimator_def)

lemma fold_animationRemoveAnimator [simp]:
  "objs (fold (animationRemoveAnimator z) as w) = objs w"
  "refreshed (fold (animationRemoveAnimator z) as w) = refreshed w"
  "errlog (fold (animationRemoveAnimator z) as w) = errlog w"
  "scheduler (fold (animationRemoveAnimator z) as w) = (scheduler w)(z := scheduler w z - set as)"
  by (induction as arbitrary: w) (auto simp: animationRemoveAnimator_def fun_eq_iff)

lemma addSelfToZr_unfold:
  "addSelfToZr (Suc n) w r z =
     (case (case clipPath (objs (enter r z w) r) of None \<Rightarrow> Some (enter r z w)
            | Some c \<Rightarrow> addSelfToZr n (enter r z w) c z) of
        None \<Rightarrow> None
      | Some w3 \<Rightarrow> (case textContent (objs w3 r) of None \<Rightarrow> Some w3
                    | Some t \<Rightarrow> addSelfToZr n w3 t z))"
  unfolding addSelfToZr.simps Let_def enter_def by (rule refl)

lemma removeSelfFromZr_unfold:
  "removeSelfFromZr (Suc n) w r z =
     (case (case clipPath (objs (leave r z w) r) of None \<Rightarrow> Some (leave r z w)
            | Some c \<Rightarrow> removeSelfFromZr n (leave r z w) c z) of
        None \<Rightarrow> None
      | Some w3 \<Rightarrow> (case textContent (objs w3 r) of None \<Rightarrow> Some w3
                    | Some t \<Rightarrow> removeSelfFromZr n w3 t z))"
  unfolding removeSelfFromZr.simps Let_def leave_def by (rule refl)

lemma enter_props:
  "zr_only w (enter r z w)" "zr (objs (enter r z w) r) = Some z"
  "zr (objs (enter r z w) y) = Some z \<or> zr (objs (enter r z w) y) = zr (objs w y)"
  "scheduler (enter r z w) = (scheduler w)(z := scheduler w z \<union> set (animators (objs w r)))"
  by (simp_all add: enter_def zr_only_def)

lemma leave_props:
  "zr_only w (leave r z w)" "zr (objs (leave r z w) r) = None"
  "zr (objs (leave r z w) y) = None \<or> zr (objs (leave r z w) y) = zr (objs w y)"
  "scheduler (leave r z w) = (scheduler w)(z := scheduler w z - set (animators (objs w r)))"
  by (simp_all add: leave_def zr_only_def)

lemma grows_refl [simp]: "grows z w w"
  by (simp add: grows_def)

lemma shrinks_refl [simp]: "shrinks z w w"
  by (simp add: shrinks_def)

lemma grows_trans: "grows z w w1 \<Longrightarrow> grows z w1 w2 \<Longrightarrow> grows z w w2"
  unfolding grows_def using zr_only_trans by (metis subset_trans)

lemma shrinks_trans: "shrinks z w w1 \<Longrightarrow> shrinks z w1 w2 \<Longrightarrow> shrinks z w w2"
  unfolding shrinks_def using zr_only_trans by (metis subset_trans)

lemma grows_enter: "grows z w (enter x z w)"
  by (auto simp: grows_def enter_props)

lemma shrinks_leave: "shrinks z w (leave x z w)"
  by (auto simp: shrinks_def leave_props)

lemma grows_zr_only: "grows z w w' \<Longrightarrow> zr_only w w'"
  by (simp add: grows_def)

lemma shrinks_zr_only: "shrinks z w w' \<Longrightarrow> zr_only w w'"
  by (simp add: shrinks_def)

lemma grows_keeps:
  "grows z w w' \<Longrightarrow> zr (objs w y) = Some z \<Longrightarrow> zr (objs w' y) = Some z"
  "grows z w w' \<Longrightarrow> A \<subseteq> scheduler w z \<Longrightarrow> A \<subseteq> scheduler w' z"
  unfolding grows_def by (metis, blast)

lemma shrinks_keeps:
  "shrinks z w w' \<Longrightarrow> zr (objs w y) = None \<Longrightarrow> zr (objs w' y) = None"
  "shrinks z w w' \<Longrightarrow> scheduler w z \<inter> A = {} \<Longrightarrow> scheduler w' z \<inter> A = {}"
  unfolding shrinks_def by (metis, blast)

lemma addSelfToZr_grows:
  "addSelfToZr n w x z = Some w' \<Longrightarrow>
     grows z w w' \<and> zr (objs w' x) = Some z \<and> set (animators (objs w x)) \<subseteq> scheduler w' z"
proof (induction n arbitrary: w x w')
  case 0
  then show ?case by (simp add: addSelfToZr.simps)
next
  case (Suc n)
  let ?w0 = "enter x z w"
  note unf = Suc.prems[unfolded addSelfToZr_unfold]
  from unf obtain w3 where
    w3: "(case clipPath (objs ?w0 x) of None \<Rightarrow> Some ?w0 | Some c \<Rightarrow> addSelfToZr n ?w0 c z) = Some w3"
    and w': "(case textContent (objs w3 x) of None \<Rightarrow> Some w3 | Some t \<Rightarrow> addSelfToZr n w3 t z) = Some w'"
    by (auto split: option.splits)
  have g03: "grows z ?w0 w3"
    using w3 Suc.IH by (auto split: option.splits)
  have g3': "grows z w3 w'"
    using w' Suc.IH by (auto split: option.splits)
  have g: "grows z w w'"
    using grows_trans[OF grows_trans[OF grows_enter g03] g3'] .
  have z0: "zr (objs ?w0 x) = Some z" and s0: "set (animators (objs w x)) \<subseteq> scheduler ?w0 z"
    by (simp_all add: enter_props)
  have g0': "grows z ?w0 w'" by (rule grows_trans[OF g03 g3'])
  show ?case
    using g grows_keeps(1)[OF g0' z0] grows_keeps(2)[OF g0' s0] by simp
qed

lemma removeSelfFromZr_shrinks:
  "removeSelfFromZr n w x z = Some w' \<Longrightarrow>
     shrinks z w w' \<and> zr (objs w' x) = None \<and> scheduler w' z \<inter> set (animators (objs w x)) = {}"
proof (induction n arbitrary: w x w')
  case 0
  then show ?case by (simp add: removeSelfFromZr.simps)
next
  case (Suc n)
  let ?w0 = "leave x z w"
  note unf = Suc.prems[unfolded removeSelfFromZr_unfold]
  from unf obtain w3 where
    w3: "(case clipPath (objs ?w0 x) of None \<Rightarrow> Some ?w0 | Some c \<Rightarrow> removeSelfFromZr n ?w0 c z) = Some w3"
    and w': "(case textContent (objs w3 x) of None \<Rightarrow> Some w3 | Some t \<Rightarrow> removeSelfFromZr n w3 t z) = Some w'"
    by (auto split: option.splits)
  have g03: "shrinks z ?w0 w3"
    using w3 Suc.IH by (auto split: option.splits)
  have g3': "shrinks z w3 w'"
    using w' Suc.IH by (auto split: option.splits)
  have g: "shrinks z w w'"
    using shrinks_trans[OF shrinks_trans[OF shrinks_leave g03] g3'] .
  have z0: "zr (objs ?w0 x) = None" and s0: "scheduler ?w0 z \<inter> set (animators (objs w x)) = {}"
    by (auto simp: leave_props)
  have g0': "shrinks z ?w0 w'" by (rule shrinks_trans[OF g03 g3'])
  show ?case
    using g shrinks_keeps(1)[OF g0' z0] shrinks_keeps(2)[OF g0' s0] by simp
qed

lemma addSelfToZr_total:
  "component_ranked rk w \<Longrightarrow> rk x < n \<Longrightarrow> \<exists>w'. addSelfToZr n w x z = Some w'"
proof (induction n arbitrary: w x)
  case 0
  then show ?case by simp
next
  case (Suc n)
  let ?w0 = "enter x z w"
  have zo0: "zr_only w ?w0" by (simp add: enter_props)
  have r0: "component_ranked rk ?w0"
    by (rule component_ranked_zr_only[OF zo0 Suc.prems(1)])
  have "\<exists>w3. (case clipPath (objs ?w0 x) of None \<Rightarrow> Some ?w0 | Some c \<Rightarrow> addSelfToZr n ?w0 c z) = Some w3"
  proof (cases "clipPath (objs ?w0 x)")
    case None
    then show ?thesis by simp
  next
    case (Some c)
    then have "rk c < rk x" using r0 by (auto simp: component_ranked_def)
    with Suc.prems(2) have "rk c < n" by simp
    from Suc.IH[OF r0 this] Some show ?thesis by simp
  qed
  then obtain w3 where
    w3: "(case clipPath (objs ?w0 x) of None \<Rightarrow> Some ?w0 | Some c \<Rightarrow> addSelfToZr n ?w0 c z) = Some w3"
    by blast
  have "grows z ?w0 w3"
    using w3 addSelfToZr_grows by (auto split: option.splits)
  then have r3: "component_ranked rk w3"
    using component_ranked_zr_only[OF grows_zr_only r0] by blast
  have "\<exists>w'. (case textContent (objs w3 x) of None \<Rightarrow> Some w3 | Some t \<Rightarrow> addSelfToZr n w3 t z) = Some w'"
  proof (cases "textContent (objs w3 x)")
    case None
    then show ?thesis by simp
  next
    case (Some t)
    then have "rk t < rk x" using r3 by (auto simp: component_ranked_def)
    with Suc.prems(2) have "rk t < n" by simp
    from Suc.IH[OF r3 this] Some show ?thesis by simp
  qed
  then show ?case
    by (simp add: addSelfToZr_unfold w3)
qed

lemma removeSelfFromZr_total:
  "component_ranked rk w \<Longrightarrow> rk x < n \<Longrightarrow> \<exists>w'. removeSelfFromZr n w x z = Some w'"
proof (induction n arbitrary: w x)
  case 0
  then show ?case by simp
next
  case (Suc n)
  let ?w0 = "leave x z w"
  have zo0: "zr_only w ?w0" by (simp add: leave_props)
  have r0: "component_ranked rk ?w0"
    by (rule component_ranked_zr_only[OF zo0 Suc.prems(1)])
  have "\<exists>w3. (case clipPath (objs ?w0 x) of None \<Rightarrow> Some ?w0 | Some c \<Rightarrow> removeSelfFromZr n ?w0 c z) = Some w3"
  proof (cases "clipPath (objs ?w0 x)")
    case None
    then show ?thesis by simp
  next
    case (Some c)
    then have "rk c < rk x" using r0 by (auto simp: component_ranked_def)
    with Suc.prems(2) have "rk c < n" by simp
    from Suc.IH[OF r0 this] Some show ?thesis by simp
  qed
  then obtain w3 where
    w3: "(case clipPath (objs ?w0 x) of None \<Rightarrow> Some ?w0 | Some c \<Rightarrow> removeSelfFromZr n ?w0 c z) = Some w3"
    by blast
  have "shrinks z ?w0 w3"
    using w3 removeSelfFromZr_shrinks by (auto split: option.splits)
  then have r3: "component_ranked rk w3"
    using component_ranked_zr_only[OF shrinks_zr_only r0] by blast
  have "\<exists>w'. (case textContent (objs w3 x) of None \<Rightarrow> Some w3 | Some t \<Rightarrow> removeSelfFromZr n w3 t z) = Some w'"
  proof (cases "textContent (objs w3 x)")
    case None
    then show ?thesis by simp
  next
    case (Some t)
    then have "rk t < rk x" using r3 by (auto simp: component_ranked_def)
    with Suc.prems(2) have "rk t < n" by simp
    from Suc.IH[OF r3 this] Some show ?thesis by simp
  qed
  then show ?case
    by (simp add: removeSelfFromZr_unfold w3)
qed

lemma addSelfToZr_clip:
  assumes "addSelfToZr n w x z = Some w1" and "clipPath (objs w x) = Some c"
  shows "zr (objs w1 c) = Some z \<and> set (animators (objs w c)) \<subseteq> scheduler w1 z"
proof (cases n)
  case 0
  with assms(1) show ?thesis by (simp add: addSelfToZr.simps)
next
  case (Suc m)
  let ?w0 = "enter x z w"
  have zo: "zr_only w ?w0" by (simp add: enter_props)
  have c0: "clipPath (objs ?w0 x) = Some c" using assms(2) zr_only_fields(1)[OF zo] by simp
  from assms(1)[unfolded Suc addSelfToZr_unfold] c0 obtain w3 where
    w3: "addSelfToZr m ?w0 c z = Some w3"
    and w': "(case textContent (objs w3 x) of None \<Rightarrow> Some w3 | Some t \<Rightarrow> addSelfToZr m w3 t z) = Some w1"
    by (auto split: option.splits)
  have g3': "grows z w3 w1"
    using w' addSelfToZr_grows by (auto split: option.splits)
  have "zr (objs w3 c) = Some z" "set (animators (objs ?w0 c)) \<subseteq> scheduler w3 z"
    using addSelfToZr_grows[OF w3] by simp_all
  then show ?thesis
    using grows_keeps[OF g3'] zr_only_fields(3)[OF zo, of c] by simp
qed

lemma removeSelfFromZr_clip:
  assumes "removeSelfFromZr n w x z = Some w1" and "clipPath (objs w x) = Some c"
  shows "zr (objs w1 c) = None \<and> scheduler w1 z \<inter> set (animators (objs w c)) = {}"
proof (cases n)
  case 0
  with assms(1) show ?thesis by (simp add: removeSelfFromZr.simps)
next
  case (Suc m)
  let ?w0 = "leave x z w"
  have zo: "zr_only w ?w0" by (simp add: leave_props)
  have c0: "clipPath (objs ?w0 x) = Some c" using assms(2) zr_only_fields(1)[OF zo] by simp
  from assms(1)[unfolded Suc removeSelfFromZr_unfold] c0 obtain w3 where
    w3: "removeSelfFromZr m ?w0 c z = Some w3"
    and w': "(case textContent (objs w3 x) of None \<Rightarrow> Some w3 | Some t \<Rightarrow> removeSelfFromZr m w3 t z) = Some w1"
    by (auto split: option.splits)
  have g3': "shrinks z w3 w1"
    using w' removeSelfFromZr_shrinks by (auto split: option.splits)
  have "zr (objs w3 c) = None" "scheduler w3 z \<inter> set (animators (objs ?w0 c)) = {}"
    using removeSelfFromZr_shrinks[OF w3] by simp_all
  then show ?thesis
    using shrinks_keeps[OF g3'] zr_only_fields(3)[OF zo, of c] by simp
qed

text \<open>
  Claim C9 (attach/detach mirroring). For a node \<open>r\<close> with clip path \<open>c\<close> whose component
  links are acyclic, \<^verbatim>\<open>addSelfToZr(host)\<close> returns with the host-context references of
  \<open>r\<close> and of \<open>c\<close> equal to \<open>host\<close> and with every animator of both registered with the
  host's scheduler; \<^verbatim>\<open>removeSelfFromZr(host)\<close> then returns with both references cleared
  and none of those animators registered.
\<close>

theorem attach_detach_mirroring:
  assumes "component_ranked rk w" and "rk r < fuel" and "clipPath (objs w r) = Some c"
  shows "\<exists>w1 w2. addSelfToZr fuel w r host = Some w1
      \<and> zr (objs w1 r) = Some host \<and> zr (objs w1 c) = Some host
      \<and> set (animators (objs w r)) \<union> set (animators (objs w c)) \<subseteq> scheduler w1 host
      \<and> removeSelfFromZr fuel w1 r host = Some w2
      \<and> zr (objs w2 r) = None \<and> zr (objs w2 c) = None
      \<and> scheduler w2 host \<inter> (set (animators (objs w r)) \<union> set (animators (objs w c))) = {}"
proof -
  obtain w1 where w1: "addSelfToZr fuel w r host = Some w1"
    using addSelfToZr_total[OF assms(1,2)] by blast
  have g1: "grows host w w1" and zr1: "zr (objs w1 r) = Some host"
    and an1: "set (animators (objs w r)) \<subseteq> scheduler w1 host"
    using addSelfToZr_grows[OF w1] by simp_all
  have zo1: "zr_only w w1" by (rule grows_zr_only[OF g1])
  have c1: "zr (objs w1 c) = Some host" "set (animators (objs w c)) \<subseteq> scheduler w1 host"
    using addSelfToZr_clip[OF w1 assms(3)] by simp_all
  have r1: "component_ranked rk w1"
    by (rule component_ranked_zr_only[OF zo1 assms(1)])
  have cp1: "clipPath (objs w1 r) = Some c"
    using assms(3) zr_only_fields(1)[OF zo1] by simp
  obtain w2 where w2: "removeSelfFromZr fuel w1 r host = Some w2"
    using removeSelfFromZr_total[OF r1 assms(2)] by blast
  have zr2: "zr (objs w2 r) = None"
    and an2: "scheduler w2 host \<inter> set (animators (objs w1 r)) = {}"
    using removeSelfFromZr_shrinks[OF w2] by simp_all
  have c2: "zr (objs w2 c) = None" "scheduler w2 host \<inter> set (animators (objs w1 c)) = {}"
    using removeSelfFromZr_clip[OF w2 cp1] by simp_all
  have same: "animators (objs w1 r) = animators (objs w r)" "animators (objs w1 c) = animators (objs w c)"
    using zr_only_fields(3)[OF zo1] by simp_all
  show ?thesis
    using w1 zr1 c1 an1 w2 zr2 c2 an2 unfolding same by (intro exI conjI) auto
qed

lemma removeClipPath_effect:
  assumes "component_ranked rk w" and "rk r < fuel"
  shows "\<exists>w'. removeClipPath fuel w r = Some w'
      \<and> clipPath (objs w' r) = None
      \<and> (\<forall>p. clipPath (objs w r) = Some p \<longrightarrow> clipTarget (objs w' p) = None \<and> zr (objs w' p) = None)
      \<and> (\<forall>a. a \<noteq> r \<longrightarrow> clipPath (objs w' a) = clipPath (objs w a))
      \<and> (\<forall>a. textContent (objs w' a) = textContent (objs w a))"
proof (cases "clipPath (objs w r)")
  case None
  then show ?thesis by (simp add: removeClipPath_def)
next
  case (Some p)
  have "\<exists>w1. (case zr (objs w p) of None \<Rightarrow> Some w | Some z \<Rightarrow> removeSelfFromZr fuel w p z) = Some w1
          \<and> zr_only w w1"
  proof (cases "zr (objs w p)")
    case None
    then show ?thesis by simp
  next
    case (Some z)
    have "rk p < rk r" using assms(1) \<open>clipPath (objs w r) = Some p\<close>
      by (auto simp: component_ranked_def)
    with assms(2) have "rk p < fuel" by simp
    from removeSelfFromZr_total[OF assms(1) this, of z] obtain w1 where
      w1: "removeSelfFromZr fuel w p z = Some w1" by blast
    then have "zr_only w w1" using removeSelfFromZr_shrinks shrinks_zr_only by blast
    with w1 Some show ?thesis by simp
  qed
  then obtain w1 where
    w1: "(case zr (objs w p) of None \<Rightarrow> Some w | Some z \<Rightarrow> removeSelfFromZr fuel w p z) = Some w1"
    and zo: "zr_only w w1" by blast
  have res: "removeClipPath fuel w r = Some (markRedraw r
                 (modify r (\<lambda>e. e\<lparr>clipPath := None\<rparr>)
                   (modify p (\<lambda>e. e\<lparr>clipTarget := None\<rparr>)
                     (modify p (\<lambda>e. e\<lparr>zr := None\<rparr>) w1))))"
    using Some w1 by (simp add: removeClipPath_def)
  show ?thesis
    unfolding res using Some zr_only_fields(1,2)[OF zo] by simp
qed

text \<open>
  Claim C8 (claim of a clip path), as amended. \<^verbatim>\<open>setClipPath(c)\<close> on a node \<open>r\<close> returns
  with \<open>c\<close> as the clip path of \<open>r\<close>, with \<open>r\<close> in the back-reference of \<open>c\<close> and with the
  host context of \<open>r\<close> as that of \<open>c\<close>. What it detaches first is the previous clip path of
  \<open>r\<close> itself, when that is another node: its back-reference and its host context are
  cleared. No other node loses its clip relation, so a node that had claimed \<open>c\<close> before
  still has \<open>c\<close> as its clip path; only the back-reference of \<open>c\<close> names a single node.
\<close>

theorem setClipPath_claim:
  assumes "component_ranked rk w" and "rk r < fuel" and "rk c < fuel"
  shows "\<exists>w'. setClipPath fuel w r c = Some w'
      \<and> clipPath (objs w' r) = Some c
      \<and> clipTarget (objs w' c) = Some r
      \<and> zr (objs w' c) = zr (objs w r)
      \<and> (\<forall>p. clipPath (objs w r) = Some p \<and> p \<noteq> c \<longrightarrow>
             clipTarget (objs w' p) = None \<and> zr (objs w' p) = None)
      \<and> (\<forall>a. a \<noteq> r \<longrightarrow> clipPath (objs w' a) = clipPath (objs w a))"
proof -
  have "\<exists>w1. (case zr (objs w r) of None \<Rightarrow> Some w | Some h \<Rightarrow> addSelfToZr fuel w c h) = Some w1
          \<and> zr_only w w1"
  proof (cases "zr (objs w r)")
    case None
    then show ?thesis by simp
  next
    case (Some h)
    from addSelfToZr_total[OF assms(1,3), of h] obtain w1 where
      w1: "addSelfToZr fuel w c h = Some w1" by blast
    then have "zr_only w w1" using addSelfToZr_grows grows_zr_only by blast
    with w1 Some show ?thesis by simp
  qed
  then obtain w1 where
    w1: "(case zr (objs w r) of None \<Rightarrow> Some w | Some h \<Rightarrow> addSelfToZr fuel w c h) = Some w1"
    and zo: "zr_only w w1" by blast
  have r1: "component_ranked rk w1"
    by (rule component_ranked_zr_only[OF zo assms(1)])
  have cp1: "\<And>a. clipPath (objs w1 a) = clipPath (objs w a)"
    using zr_only_fields(1)[OF zo] by simp
  have "\<exists>w2. (case clipPath (objs w1 r) of None \<Rightarrow> Some w1
               | Some p \<Rightarrow> if p \<noteq> c then removeClipPath fuel w1 r else Some w1) = Some w2
          \<and> (\<forall>p. clipPath (objs w r) = Some p \<and> p \<noteq> c \<longrightarrow>
                 clipTarget (objs w2 p) = None \<and> zr (objs w2 p) = None)
          \<and> (\<forall>a. a \<noteq> r \<longrightarrow> clipPath (objs w2 a) = clipPath (objs w a))"
  proof (cases "\<exists>p. clipPath (objs w1 r) = Some p \<and> p \<noteq> c")
    case True
    from removeClipPath_effect[OF r1 assms(2)] obtain w2 where
      "removeClipPath fuel w1 r = Some w2"
      "\<forall>p. clipPath (objs w1 r) = Some p \<longrightarrow> clipTarget (objs w2 p) = None \<and> zr (objs w2 p) = None"
      "\<forall>a. a \<noteq> r \<longrightarrow> clipPath (objs w2 a) = clipPath (objs w1 a)"
      by blast
    then show ?thesis using True cp1 by auto
  next
    case False
    then have "(case clipPath (objs w1 r) of None \<Rightarrow> Some w1
               | Some p \<Rightarrow> if p \<noteq> c then removeClipPath fuel w1 r else Some w1) = Some w1"
      by (auto split: option.splits)
    then show ?thesis using False cp1 by auto
  qed
  then obtain w2 where
    w2: "(case clipPath (objs w1 r) of None \<Rightarrow> Some w1
               | Some p \<Rightarrow> if p \<noteq> c then removeClipPath fuel w1 r else Some w1) = Some w2"
    and old: "\<forall>p. clipPath (objs w r) = Some p \<and> p \<noteq> c \<longrightarrow>
                 clipTarget (objs w2 p) = None \<and> zr (objs w2 p) = None"
    and others: "\<forall>a. a \<noteq> r \<longrightarrow> clipPath (objs w2 a) = clipPath (objs w a)"
    by blast
  have res: "setClipPath fuel w r c = Some (markRedraw r
                 (modify c (\<lambda>e. e\<lparr>clipTarget := Some r\<rparr>)
                   (modify c (\<lambda>e. e\<lparr>zr := zr (objs w r)\<rparr>)
                     (modify r (\<lambda>e. e\<lparr>clipPath := Some c\<rparr>) w2))))"
    using w1 w2 by (simp add: setClipPath_def Let_def)
  show ?thesis
    unfolding res using old others by simp
qed

text \<open>
  Claim C10 (drift axis lock). With the node's matrix, or the identity when it has none,
  being \<open>(a, b, c, d, tx, ty)\<close>: for \<^verbatim>\<open>draggable === "horizontal"\<close> the matrix after
  \<^verbatim>\<open>drift(dx, dy)\<close> has \<open>dx\<close> added to its horizontal translation and its vertical
  translation unchanged, and for \<^verbatim>\<open>"vertical"\<close> it has \<open>dy\<close> added to the vertical
  translation and the horizontal one unchanged.
\<close>

theorem drift_axis_lock:
  assumes "(case transform (objs w r) of None \<Rightarrow> (1, 0, 0, 1, 0, 0) | Some t \<Rightarrow> t)
             = (a, b, c, d, tx, ty)"
  shows "(draggable (objs w r) = DragStr ''horizontal'' \<longrightarrow>
            transform (objs (drift D r dx dy w) r) = Some (a, b, c, d, tx + dx, ty))
       \<and> (draggable (objs w r) = DragStr ''vertical'' \<longrightarrow>
            transform (objs (drift D r dx dy w) r) = Some (a, b, c, d, tx, ty + dy))"
  using assms
  by (simp add: drift_def Let_def decomposeTransform_def split: prod.splits)

lemma clip_world_ranked: "component_ranked clip_rank clip_world"
  by (simp add: component_ranked_def clip_world_def clip_rank_def fresh_world_def fresh_element_def)

lemma clip_world_clip: "clipPath (objs clip_world 0) = Some 1"
  by (simp add: clip_world_def)

text \<open>The theorem at a node with one animator and a clip path with one animator.\<close>

theorem attach_detach_mirroring_witness:
  "\<exists>w1 w2. addSelfToZr (Suc (Suc 0)) clip_world 0 7 = Some w1
      \<and> zr (objs w1 0) = Some 7 \<and> zr (objs w1 1) = Some 7
      \<and> set (animators (objs clip_world 0)) \<union> set (animators (objs clip_world 1)) \<subseteq> scheduler w1 7
      \<and> removeSelfFromZr (Suc (Suc 0)) w1 0 7 = Some w2
      \<and> zr (objs w2 0) = None \<and> zr (objs w2 1) = None
      \<and> scheduler w2 7 \<inter> (set (animators (objs clip_world 0)) \<union> set (animators (objs clip_world 1))) = {}"
proof -
  have "clip_rank 0 < Suc (Suc 0)" by (simp add: clip_rank_def)
  from attach_detach_mirroring[OF clip_world_ranked this clip_world_clip, of 7]
  show ?thesis .
qed

text \<open>The theorem at a clip path that node 0 has claimed, set on node 2.\<close>

theorem setClipPath_claim_witness:
  "\<exists>w'. setClipPath (Suc (Suc 0)) clip_world 2 1 = Some w'
      \<and> clipPath (objs w' 2) = Some 1
      \<and> clipTarget (objs w' 1) = Some 2
      \<and> zr (objs w' 1) = None
      \<and> clipPath (objs w' 0) = Some 1"
proof -
  have "clip_rank 2 < Suc (Suc 0)" "clip_rank 1 < Suc (Suc 0)" by (simp_all add: clip_rank_def)
  from setClipPath_claim[OF clip_world_ranked this]
  obtain w' where "setClipPath (Suc (Suc 0)) clip_world 2 1 = Some w'"
      "clipPath (objs w' 2) = Some 1" "clipTarget (objs w' 1) = Some 2"
      "zr (objs w' 1) = zr (objs clip_world 2)"
      "\<forall>a. a \<noteq> 2 \<longrightarrow> clipPath (objs w' a) = clipPath (objs clip_world a)"
    by blast
  then show ?thesis
    by (simp add: clip_world_def fresh_world_def fresh_element_def)
qed

text \<open>
  Claim C8 as stated fails there: the clip path 1 is claimed by node 0, and after
  \<^verbatim>\<open>setClipPath\<close> on node 2 its back-reference names node 2 while node 0 still has it as
  its clip path.
\<close>

theorem setClipPath_claim_counterexample:
  "clipPath (objs clip_world 0) = Some 1 \<and> clipTarget (objs clip_world 1) = Some 0
   \<and> map_option clipTarget (node_after (setClipPath (Suc 0) clip_world 2 1) 1) = Some (Some 2)
   \<and> map_option clipPath (node_after (setClipPath (Suc 0) clip_world 2 1) 2) = Some (Some 1)
   \<and> map_option clipPath (node_after (setClipPath (Suc 0) clip_world 2 1) 0) = Some (Some 1)"
  by (simp add: node_after_def setClipPath_def clip_world_def fresh_world_def fresh_element_def
      Let_def)

text \<open>The theorem at \<^verbatim>\<open>drift(5, 7)\<close> on a node without matrix, for either mode.\<close>

theorem drift_axis_lock_witness:
  "transform (objs (drift unitDecompose 0 5 7 (drag_world ''horizontal'')) 0) = Some (1, 0, 0, 1, 5, 0)
   \<and> transform (objs (drift unitDecompose 0 5 7 (drag_world ''vertical'')) 0) = Some (1, 0, 0, 1, 0, 7)"
  using drift_axis_lock[of "drag_world ''horizontal''" 0 1 0 0 1 0 0 unitDecompose 5 7]
    drift_axis_lock[of "drag_world ''vertical''" 0 1 0 0 1 0 0 unitDecompose 5 7]
  by (simp add: drag_world_def fresh_world_def fresh_element_def)

subsection \<open>The loop of \<^verbatim>\<open>animateToShallow\<close>\<close>

lemma plainObject_iff: "plainObject v = (\<exists>obj. v = JObj obj)"
  by (cases v) (simp_all add: plainObject_def)

lemma getProp_setProp [simp]:
  "getProp (setProp obj k v) k' = (if k' = k then v else getProp obj k')"
  by (induction obj k v rule: setProp.induct) (auto simp: getProp_def)

lemma shallowLoop_Nil [simp]:
  "shallowLoop topKey path target [] time delay reverse acc source el = Returned (acc, source, el)"
  by (simp add: shallowLoop.simps)

lemma shallowLoop_Cons:
  "shallowLoop topKey path target (innerKey # rest) time delay reverse acc source el =
     (if getProp source innerKey \<noteq> JNull then
        (if plainObject (getProp target innerKey) then
           (if topKey \<noteq> [] then
              Threw ''Only support 1 depth nest object animation.'' (source, el)
            else
              (case getProp target innerKey of
                 JObj subTarget \<Rightarrow>
                   (case getProp source innerKey of
                      JObj sub \<Rightarrow>
                        (case animateToShallow innerKey (path @ [innerKey]) sub subTarget
                                time delay reverse el of
                           Returned (sub1, el1) \<Rightarrow>
                             shallowLoop topKey path target rest time delay reverse acc
                               (setProp source innerKey (JObj sub1)) el1
                         | Threw msg (sub1, el1) \<Rightarrow>
                             Threw msg (setProp source innerKey (JObj sub1), el1)
                         | Unmodelled \<Rightarrow> Unmodelled)
                    | _ \<Rightarrow> Unmodelled)
               | _ \<Rightarrow> Unmodelled))
         else
           shallowLoop topKey path target rest time delay reverse (acc @ [innerKey]) source el)
      else if getProp target innerKey \<noteq> JNull \<and> \<not> reverse then
        shallowLoop topKey path target rest time delay reverse acc
          (setProp source innerKey (getProp target innerKey)) el
      else
        shallowLoop topKey path target rest time delay reverse acc source el)"
  unfolding plainObject_def by (rule shallowLoop.simps(2))

text \<open>Inside a sub-object the loop never meets a value it cannot read.\<close>

lemma shallowLoop_sub_modelled:
  "topKey \<noteq> [] \<Longrightarrow>
     shallowLoop topKey path target ks time delay reverse acc source el \<noteq> Unmodelled"
  by (induction ks arbitrary: acc source el reverse) (simp_all add: shallowLoop_Cons)

lemma shallowLoop_sub_guard:
  "topKey \<noteq> [] \<Longrightarrow> k \<in> set ks \<Longrightarrow> getProp source k \<noteq> JNull \<Longrightarrow> plainObject (getProp target k) \<Longrightarrow>
     \<exists>st. shallowLoop topKey path target ks time delay reverse acc source el
            = Threw ''Only support 1 depth nest object animation.'' st"
proof (induction ks arbitrary: acc source el reverse)
  case Nil
  then show ?case by simp
next
  case (Cons x ks)
  show ?case
  proof (cases "x = k")
    case True
    then show ?thesis using Cons.prems by (simp add: shallowLoop_Cons)
  next
    case False
    then have k: "k \<in> set ks" using Cons.prems(2) by simp
    have keep: "getProp (setProp source x v) k \<noteq> JNull" for v
      using False Cons.prems(3) by simp
    show ?thesis
      using Cons.IH[OF Cons.prems(1) k Cons.prems(3,4)] Cons.IH[OF Cons.prems(1) k keep Cons.prems(4)]
        Cons.prems(1)
      by (simp add: shallowLoop_Cons)
  qed
qed

lemma animateToShallow_sub_guard:
  assumes "topKey \<noteq> []" "k \<in> set (keys target)" "getProp source k \<noteq> JNull"
    "plainObject (getProp target k)"
  shows "\<exists>st. animateToShallow topKey path source target time delay reverse el
            = Threw ''Only support 1 depth nest object animation.'' st"
  using shallowLoop_sub_guard[OF assms, of path time delay reverse "[]" el]
  by (auto simp: animateToShallow.simps)

lemma animateToShallow_sub_modelled:
  "topKey \<noteq> [] \<Longrightarrow> animateToShallow topKey path source target time delay reverse el \<noteq> Unmodelled"
  using shallowLoop_sub_modelled[of topKey path target "keys target" time delay reverse "[]" source el]
  by (auto simp: animateToShallow.simps split: outcome.splits)

lemma shallowLoop_sub_message:
  "topKey \<noteq> [] \<Longrightarrow>
     shallowLoop topKey path target ks time delay reverse acc source el = Threw msg st \<Longrightarrow>
     msg = nestingError"
  by (induction ks arbitrary: acc source el reverse)
     (auto simp: shallowLoop_Cons nestingError_def split: if_splits)

lemma animateToShallow_sub_message:
  "topKey \<noteq> [] \<Longrightarrow>
     animateToShallow topKey path source target time delay reverse el = Threw msg st \<Longrightarrow>
     msg = nestingError"
  using shallowLoop_sub_message[of topKey path target "keys target" time delay reverse "[]" source el msg]
  by (auto simp: animateToShallow.simps split: outcome.splits)

lemma shallowLoop_top_guard:
  assumes "[] \<notin> set ks"
    and "\<forall>x \<in> set ks. plainObject (getProp target x) \<and> getProp source x \<noteq> JNull
            \<longrightarrow> plainObject (getProp source x)"
    and "K \<in> set ks" and "getProp target K = JObj subT" and "getProp source K = JObj sub"
    and "k \<in> set (keys subT)" and "getProp sub k \<noteq> JNull" and "plainObject (getProp subT k)"
  shows "\<exists>st. shallowLoop [] path target ks time delay reverse acc source el = Threw nestingError st"
  using assms(1,2,3,5)
proof (induction ks arbitrary: acc source el)
  case Nil
  then show ?case by simp
next
  case (Cons x ks)
  have x: "x \<noteq> []" using Cons.prems(1) by auto
  show ?case
  proof (cases "x = K")
    case True
    have "\<exists>st. animateToShallow K (path @ [K]) sub subT time delay reverse el = Threw nestingError st"
      using animateToShallow_sub_guard[OF _ assms(6,7,8), of K] x True
      by (simp add: nestingError_def)
    then show ?thesis
      using True Cons.prems(4) assms(4) x
      by (auto simp: shallowLoop_Cons plainObject_iff)
  next
    case False
    have K: "K \<in> set ks" using Cons.prems(3) False by simp
    have nil: "[] \<notin> set ks" using Cons.prems(1) by simp
    have step: "\<exists>st. shallowLoop [] path target ks time delay reverse acc' (setProp source x v) el'
                  = Threw nestingError st"
      if "plainObject (getProp target x) \<longrightarrow> plainObject v" for acc' v el'
    proof (rule Cons.IH[OF nil _ K])
      show "\<forall>y\<in>set ks. plainObject (getProp target y) \<and> getProp (setProp source x v) y \<noteq> JNull
              \<longrightarrow> plainObject (getProp (setProp source x v) y)"
        using Cons.prems(2) that by auto
      show "getProp (setProp source x v) K = JObj sub"
        using False Cons.prems(4) by simp
    qed
    have same: "\<exists>st. shallowLoop [] path target ks time delay reverse acc' source el'
                  = Threw nestingError st" for acc' el'
    proof (rule Cons.IH[OF nil _ K Cons.prems(4)])
      show "\<forall>y\<in>set ks. plainObject (getProp target y) \<and> getProp source y \<noteq> JNull
              \<longrightarrow> plainObject (getProp source y)"
        using Cons.prems(2) by auto
    qed
    show ?thesis
    proof (cases "getProp source x \<noteq> JNull \<and> plainObject (getProp target x)")
      case True
      then obtain t s where t: "getProp target x = JObj t" and s: "getProp source x = JObj s"
        using Cons.prems(2) by (auto simp: plainObject_iff)
      show ?thesis
      proof (cases "animateToShallow x (path @ [x]) s t time delay reverse el")
        case (Returned r)
        obtain s1 el1 where r: "r = (s1, el1)" by (cases r)
        show ?thesis
          using step[of "JObj s1" acc el1] True t s Returned r
          by (simp add: shallowLoop_Cons plainObject_iff)
      next
        case (Threw m st)
        obtain s1 el1 where st: "st = (s1, el1)" by (cases st)
        have "m = nestingError" using animateToShallow_sub_message[OF x Threw] .
        then show ?thesis
          using True t s Threw st by (simp add: shallowLoop_Cons plainObject_iff)
      next
        case Unmodelled
        then show ?thesis using animateToShallow_sub_modelled[OF x] by blast
      qed
    next
      case False
      then show ?thesis
        using same step[of "getProp target x"]
        by (auto simp: shallowLoop_Cons)
    qed
  qed
qed

lemma stopAnimation_props [simp]: "an_props (stopAnimation False el) = an_props el"
  by (simp add: stopAnimation_def)

text \<open>The definitions a call of \<^verbatim>\<open>animateTo\<close> on a concrete node is evaluated with.\<close>

lemmas anim_eval =
  animateTo_def elementAnimateTo_def animateFrom_def normalizeArgs_def stopAnimation_def
  animateToShallow.simps shallowLoop.simps startLoop.simps startAnimator_def fireDone_def
  countDown_def invokeCallback_def createAnimator_def swapForReverse_def addAnimator_def
  nothingToAnimate_def splice1_def keys_def getProp_def bare_def Let_def

text \<open>
  Any key nested too deep whose live value is present makes the call fail, wherever it
  stands in a descriptor whose top-level keys are not empty.
\<close>

lemma animateTo_nested_throws:
  assumes "[] \<notin> set (keys target)"
    and "\<forall>x \<in> set (keys target).
           plainObject (getProp target x) \<and> getProp (an_props el) x \<noteq> JNull
            \<longrightarrow> plainObject (getProp (an_props el) x)"
    and "K \<in> set (keys target)" and "getProp target K = JObj subT"
    and "getProp (an_props el) K = JObj sub"
    and "k \<in> set (keys subT)" and "getProp sub k \<noteq> JNull" and "plainObject (getProp subT k)"
  shows "\<exists>st. animateTo el target time delay easing callback forceAnimate reverse
           = Threw nestingError st"
proof -
  obtain t d e c where n: "normalizeArgs time delay easing callback = (t, d, e, c)"
    by (cases "normalizeArgs time delay easing callback") auto
  from shallowLoop_top_guard[OF assms, of "[]" t d reverse "[]" "stopAnimation False el"]
  obtain st where "shallowLoop [] [] target (keys target) t d reverse [] (an_props el)
       (stopAnimation False el) = Threw nestingError st" by blast
  then have "animateToShallow [] [] (an_props (stopAnimation False el)) target t d reverse
       (stopAnimation False el) = Threw nestingError st"
    by (simp add: animateToShallow.simps)
  then show ?thesis
    by (cases st) (simp add: animateTo_def n Let_def)
qed


lemma assignAbsent_Nil [simp]: "assignAbsent target [] source = source"
  by (simp add: assignAbsent_def)











subsection \<open>The completion countdown\<close>

text \<open>With no animator created the callback is invoked before \<^verbatim>\<open>animateTo\<close> returns.\<close>

lemma animateTo_no_animators:
  assumes "normalizeArgs time0 delay0 easing0 callback0 = (time, delay, easing, ArgFn)"
    and "animateToShallow [] [] (an_props el) target time delay reverse (stopAnimation False el)
           = Returned (source1, el1)"
    and "an_animators el1 = []"
  shows "animateTo el target time0 delay0 easing0 callback0 forceAnimate reverse
           = Returned \<lparr>run_el = el1\<lparr>an_props := source1\<rparr>, run_count = 0, run_fired = 1\<rparr>"
  using assms
  by (simp add: animateTo_def Let_def invokeCallback_def startLoop.simps)

text \<open>
  Claim C4 (completion countdown) at \<^verbatim>\<open>animateTo({shape: {w: 1}, style: {o: 1}}, callback)\<close>
  on the node with \<^verbatim>\<open>shape: {w: 1}\<close> and \<^verbatim>\<open>style: {o: 0}\<close>. Two animators are created and
  the countdown starts at 2. The animator of \<^verbatim>\<open>shape\<close> has nothing to animate, so its start
  runs its completion handlers at once: it is spliced out of \<^verbatim>\<open>animatable.animators\<close>, the
  very array the starting loop walks, and the countdown goes to 1. The loop's index is then
  past the end of the array: the animator of \<^verbatim>\<open>style\<close> is neither given the countdown
  handler nor started. The call returns with the callback not invoked, and ticking what is
  left on the node to completion does not invoke it either.
\<close>

theorem completion_countdown_failing_input:
  "elementAnimateTo shape_style_node shape_style_target ArgFn ArgUndefined ArgUndefined
      ArgUndefined False = Returned stalled_run
   \<and> run_count stalled_run = 1 \<and> run_fired stalled_run = 0
   \<and> map a_started (an_animators (run_el stalled_run)) = [False]
   \<and> run_fired (tickAll ArgFn stalled_run) = 0"
  by (simp add: anim_eval shape_style_node_def shape_style_target_def stalled_run_def tickAll_def
      completeAnimator_def)

subsection \<open>The swap of \<^verbatim>\<open>animateFrom\<close>\<close>

lemma shallowLoop_reverse:
  "shallowLoop topKey path target ks time delay True acc source el = Returned (acc', source', el') \<Longrightarrow>
     acc' = acc @ filter (animatable source target) ks
     \<and> (\<forall>k. \<not> plainObject (getProp target k) \<longrightarrow> getProp source' k = getProp source k)
     \<and> (\<forall>k. (getProp source' k \<noteq> JNull) = (getProp source k \<noteq> JNull))"
proof (induction ks arbitrary: acc source el)
  case Nil
  then show ?case by simp
next
  case (Cons x ks)
  note run = Cons.prems[unfolded shallowLoop_Cons]
  show ?case
  proof (cases "getProp source x \<noteq> JNull")
    case False
    with run have "shallowLoop topKey path target ks time delay True acc source el
        = Returned (acc', source', el')" by simp
    from Cons.IH[OF this] False show ?thesis by (simp add: animatable_def)
  next
    case True
    show ?thesis
    proof (cases "plainObject (getProp target x)")
      case False
      with run True have "shallowLoop topKey path target ks time delay True (acc @ [x]) source el
        = Returned (acc', source', el')" by simp
      from Cons.IH[OF this] True False show ?thesis by (simp add: animatable_def)
    next
      case plain: True
      from run True plain obtain s1 el1 where
        next_run: "shallowLoop topKey path target ks time delay True acc
            (setProp source x (JObj s1)) el1 = Returned (acc', source', el')"
        by (auto split: if_splits jsval.splits outcome.splits)
      have same: "animatable (setProp source x (JObj s1)) target = animatable source target"
        using True by (auto simp: animatable_def fun_eq_iff)
      from Cons.IH[OF next_run] True plain show ?thesis
        unfolding same by (auto simp: animatable_def)
    qed
  qed
qed

lemma swap_fold:
  "distinct ks \<Longrightarrow>
   fold (\<lambda>innerKey (reversedTarget, src).
             (setProp reversedTarget innerKey (getProp src innerKey),
              setProp src innerKey (getProp target innerKey))) ks (rt0, s0) = (rt, s) \<Longrightarrow>
   (\<forall>k \<in> set ks. getProp rt k = getProp s0 k \<and> getProp s k = getProp target k)
   \<and> (\<forall>k. k \<notin> set ks \<longrightarrow> getProp rt k = getProp rt0 k \<and> getProp s k = getProp s0 k)"
proof (induction ks arbitrary: rt0 s0)
  case Nil
  then show ?case by simp
next
  case (Cons x ks)
  from Cons.prems(2) have "fold (\<lambda>innerKey (reversedTarget, src).
             (setProp reversedTarget innerKey (getProp src innerKey),
              setProp src innerKey (getProp target innerKey))) ks
          (setProp rt0 x (getProp s0 x), setProp s0 x (getProp target x)) = (rt, s)"
    by simp
  from Cons.IH[OF _ this] Cons.prems(1) show ?case by auto
qed

lemma writeKeyframe_get:
  "getProp (writeKeyframe a tgt) k = (if k \<in> set (a_keys a) then getProp (a_props a) k else getProp tgt k)"
proof -
  have "getProp (fold (\<lambda>k t. setProp t k (getProp props k)) ks tgt) k
          = (if k \<in> set ks then getProp props k else getProp tgt k)" for ks props
    by (induction ks arbitrary: tgt) auto
  then show ?thesis by (simp add: writeKeyframe_def)
qed

text \<open>What one call of \<^verbatim>\<open>animateToShallow\<close> with \<^verbatim>\<open>reverse\<close> does to a key it animates.\<close>

lemma animateToShallow_reverse:
  assumes run: "animateToShallow topKey path source target time delay True el = Returned (source', el')"
    and d: "distinct (keys target)" and k: "k \<in> set (keys target)"
    and an: "animatable source target k"
  shows "getProp source' k = getProp target k \<and> an_animators el' \<noteq> []
       \<and> a_target (last (an_animators el')) = path
       \<and> k \<in> set (a_keys (last (an_animators el')))
       \<and> getProp (a_props (last (an_animators el'))) k = getProp source k"
proof -
  from run obtain acc s1 el1 where
    loop: "shallowLoop topKey path target (keys target) time delay True [] source el
             = Returned (acc, s1, el1)"
    and res: "(source', el') = (if length acc > 0
                    then createAnimator topKey path s1 target acc time delay True el1
                    else (s1, el1))"
    by (auto simp: animateToShallow.simps split: outcome.splits)
  from shallowLoop_reverse[OF loop]
  have acc: "acc = filter (animatable source target) (keys target)"
    and leaf: "\<forall>k. \<not> plainObject (getProp target k) \<longrightarrow> getProp s1 k = getProp source k"
    by simp_all
  have kin: "k \<in> set acc" using acc k an by simp
  have dacc: "distinct acc" using acc d by simp
  obtain rt s2 where sw: "swapForReverse target acc s1 = (rt, s2)"
    by (cases "swapForReverse target acc s1") auto
  from swap_fold[OF dacc sw[unfolded swapForReverse_def]] kin
  have g: "getProp rt k = getProp s1 k" "getProp s2 k = getProp target k" by auto
  have s1k: "getProp s1 k = getProp source k" using leaf an by (simp add: animatable_def)
  have "0 < length acc" using kin by (cases acc) auto
  with res sw have "source' = s2"
    and "an_animators el' = an_animators el1 @
          [\<lparr>a_id = an_fresh el1, a_target = path, a_loop = False,
             a_time = (if time = ArgUndefined then ArgNum 500 else time),
             a_props = rt, a_keys = acc,
             a_delay = (if truthy delay then delay else ArgNum 0),
             a_duringKey = Some topKey, a_doneList = [SpliceFromAnimators],
             a_started = False, a_easing = ArgUndefined\<rparr>]"
    by (simp_all add: createAnimator_def addAnimator_def Let_def)
  then show ?thesis using g s1k kin by simp
qed

lemma fireDone_props [simp]: "an_props (run_el (fireDone callback a run)) = an_props (run_el run)"
proof -
  have "an_props (run_el (fold (\<lambda>cb r.
             case cb of
               SpliceFromAnimators \<Rightarrow>
                 r\<lparr>run_el := (run_el r)\<lparr>an_animators :=
                     splice1 (indexOf (an_animators (run_el r)) (a_id a))
                       (an_animators (run_el r))\<rparr>\<rparr>
             | CountDown \<Rightarrow> countDown callback r) cbs run)) = an_props (run_el run)" for cbs
    by (induction cbs arbitrary: run)
       (auto simp: countDown_def invokeCallback_def Let_def split: callback.splits)
  then show ?thesis by (simp add: fireDone_def)
qed

lemma invokeCallback_props [simp]:
  "an_props (run_el (invokeCallback callback run)) = an_props (run_el run)"
  by (simp add: invokeCallback_def)

lemma startAnimator_props [simp]:
  "an_props (run_el (startAnimator callback easing forceAnimate i run)) = an_props (run_el run)"
  by (simp add: startAnimator_def Let_def)

lemma startLoop_props [simp]:
  "an_props (run_el (startLoop callback easing forceAnimate i run)) = an_props (run_el run)"
proof (induction callback easing forceAnimate i run rule: startLoop.induct)
  case (1 callback easing forceAnimate i run)
  show ?case
  proof (cases "i < length (an_animators (run_el run))")
    case True
    with 1 show ?thesis by (subst startLoop.simps) simp
  next
    case False
    then show ?thesis by (subst startLoop.simps) simp
  qed
qed

text \<open>
  The swap at a top-level key. When \<^verbatim>\<open>animateFrom\<close> returns, every key \<open>k\<close> of the
  descriptor with a non-null value in the live object and a non-null leaf value in the
  descriptor holds the descriptor's value in the live object; and the animator the call
  created last, the one of the node itself, has \<open>k\<close> among its keys with the value the live
  object held before the call as its end keyframe, so that writing the end keyframe puts
  that value back.
\<close>

lemma animateFrom_swap:
  assumes "animateFrom el target time0 delay0 easing0 callback0 forceAnimate = Returned run"
    and "normalizeArgs time0 delay0 easing0 callback0 = (time, delay, easing, callback)"
    and "distinct (keys target)" and "k \<in> set (keys target)"
    and "getProp (an_props el) k \<noteq> JNull" and "getProp target k \<noteq> JNull"
    and "\<not> (isObject (getProp target k) \<and> \<not> isArrayLike (getProp target k))"
  shows "getProp (an_props (run_el run)) k = getProp target k
     \<and> (\<exists>source1 el1.
           animateToShallow [] [] (an_props el) target time delay True (stopAnimation False el)
             = Returned (source1, el1)
         \<and> an_props (run_el run) = source1
         \<and> an_animators el1 \<noteq> []
         \<and> a_target (last (an_animators el1)) = []
         \<and> k \<in> set (a_keys (last (an_animators el1)))
         \<and> getProp (a_props (last (an_animators el1))) k = getProp (an_props el) k
         \<and> getProp (writeKeyframe (last (an_animators el1)) (an_props (run_el run))) k
              = getProp (an_props el) k)"
proof -
  from assms(1,2) obtain source1 el1 where
    sh: "animateToShallow [] [] (an_props el) target time delay True (stopAnimation False el)
           = Returned (source1, el1)"
    and props: "an_props (run_el run) = source1"
    by (auto simp: animateFrom_def animateTo_def Let_def split: outcome.splits if_splits)
  have an: "animatable (an_props el) target k"
    using assms(5,7) by (simp add: animatable_def plainObject_def)
  from animateToShallow_reverse[OF sh assms(3,4) an]
  show ?thesis using sh props by (simp add: writeKeyframe_get)
qed

text \<open>
  \<^verbatim>\<open>animateFrom({position: [0, 0]}, callback)\<close> on a node at \<^verbatim>\<open>position: [10, 10]\<close>: the
  position reads \<^verbatim>\<open>[0, 0]\<close> on return, and \<^verbatim>\<open>[10, 10]\<close> with the callback invoked once the
  host has ticked the animator to completion.
\<close>

lemma position_run_eq:
  "animateFrom position_node position_target ArgUndefined ArgUndefined ArgUndefined ArgFn False
     = Returned position_run"
  by (simp add: anim_eval position_node_def position_target_def position_run_def)

lemma animateFrom_swap_position:
  "animateFrom position_node position_target ArgUndefined ArgUndefined ArgUndefined ArgFn False
     = Returned position_run
   \<and> getProp (an_props (run_el position_run)) ''position'' = JArr [JNum 0, JNum 0]
   \<and> getProp (an_props (run_el (completeAnimator ArgFn 0 position_run))) ''position''
        = JArr [JNum 10, JNum 10]
   \<and> run_fired (completeAnimator ArgFn 0 position_run) = 1"
proof -
  have n: "normalizeArgs ArgUndefined ArgUndefined ArgUndefined ArgFn
            = (ArgNum 500, ArgUndefined, ArgUndefined, ArgFn)"
    by (simp add: normalizeArgs_def)
  have "getProp (an_props (run_el position_run)) ''position'' = getProp position_target ''position''"
    using animateFrom_swap[OF position_run_eq n, of "''position''"]
    by (simp add: position_node_def position_target_def bare_def keys_def getProp_def)
  then show ?thesis
    using position_run_eq
    by (simp add: position_target_def position_run_def getProp_def completeAnimator_def
        applyKeyframe_def writeKeyframe_def fireDone_def countDown_def invokeCallback_def
        splice1_def Let_def)
qed


end
